theory Spec2Isabelle
  imports Main "HOL-Library.Word"
begin

unbundle bit_operations_syntax

section \<open>Data model of the shared message queue\<close>

text \<open>
  The development follows \<^verbatim>\<open>src/src/hazcat_message_queue.c\<close> and
  \<^verbatim>\<open>include/rmw_hazcat/hazcat_message_queue.h\<close>. C integers are machine words of their
  width on an LP64 platform: \<^verbatim>\<open>int\<close> and \<^verbatim>\<open>atomic_int\<close> are \<open>32 word\<close> read through
  \<open>sint\<close>, \<^verbatim>\<open>uint32_t\<close> is \<open>32 word\<close>, \<^verbatim>\<open>size_t\<close> is \<open>64 word\<close>, \<^verbatim>\<open>uint16_t\<close> is
  \<open>16 word\<close>, \<^verbatim>\<open>uint8_t\<close> is \<open>8 word\<close>. A conversion of \<^verbatim>\<open>int\<close> to \<^verbatim>\<open>size_t\<close> is
  \<open>scast\<close> (sign extension), every other conversion is \<open>ucast\<close>.
\<close>

type_synonym c_int = "32 word"
type_synonym size_t = "64 word"
type_synonym pointer = "64 word"

text \<open>
  Modelled from the spec: \<^verbatim>\<open>rmw_hazcat/allocators/hma_template.h\<close> is not among the sources.
  An allocator header carries \<open>shmem_id\<close>, \<open>strategy\<close>, \<open>device_type\<close> and
  \<open>device_number\<close>; \<open>domain\<close> is the 32-bit domain id, an opaque equality key. The field
  \<open>base\<close> is the address at which this process has mapped the header, the value of a
  \<^verbatim>\<open>hma_allocator_t *\<close>.
\<close>

record hma_allocator =
  base :: pointer
  shmem_id :: c_int
  strategy :: "16 word"
  device_type :: "16 word"
  device_number :: "8 word"
  domain :: "32 word"

text \<open>Modelled from the spec: the domain id of host memory; column 0 of every queue.\<close>

definition CPU :: "32 word" where
  "CPU = 0"

definition DOMAINS_PER_TOPIC :: nat where
  "DOMAINS_PER_TOPIC = 32"

record ref_bits_t =
  interest_count :: "32 word"
  availability :: "32 word"
  lock :: "64 word"

record entry_t =
  alloc_shmem_id :: c_int
  offset :: "32 word"
  len_e :: size_t

record message_queue_t =
  index :: c_int
  len :: size_t
  num_domains :: size_t
  domains :: "nat \<Rightarrow> 32 word"
  pub_count :: "16 word"
  sub_count :: "16 word"

record mq_node_t =
  fd :: int

record msg_ref_t =
  ref_alloc :: "hma_allocator option"
  ref_msg :: pointer

record pub_sub_data_t =
  alloc :: hma_allocator
  mq :: "mq_node_t option"
  next_index :: "16 word"
  array_num :: "8 word"
  depth :: c_int

datatype rmw_ret_t = RMW_RET_OK | RMW_RET_ERROR | RMW_RET_INVALID_ARGUMENT

text \<open>The advisory lock this process holds on the queue's file (\<^verbatim>\<open>l_type\<close> of the last
  successful \<^verbatim>\<open>fcntl\<close>).\<close>

datatype l_type = F_RDLCK | F_WRLCK | F_UNLCK

text \<open>
  Modelled from the spec: the allocator operations are macros of the absent
  \<^verbatim>\<open>hma_template.h\<close> that dispatch on the allocator's strategy and device type. A call is
  recorded, in order, with the allocator it is dispatched on and its arguments.
\<close>

datatype alloc_call =
    ALLOCATE hma_allocator size_t
  | DEALLOCATE hma_allocator "32 word"
  | SHARE hma_allocator "32 word"
  | COPY_TO hma_allocator pointer pointer size_t
  | COPY_FROM hma_allocator pointer pointer size_t
  | COPY hma_allocator pointer hma_allocator pointer size_t

text \<open>Executions that leave the C semantics: a trap or undefined behaviour.\<close>

datatype fault =
    DivisionByZero | OutOfBounds | NullPointer | ShiftTooFar | AssertionFailed | UseAfterUnmap

type_synonym hashtable_t = "c_int \<Rightarrow> hma_allocator option"

text \<open>
  What the operating system and the allocators answer during one call: whether each system
  call succeeds, the descriptor \<^verbatim>\<open>shm_open\<close> returns, the allocator segments that exist on
  the host (for attaching one by id), and the offset \<^verbatim>\<open>ALLOCATE\<close> returns.
\<close>

record os_env =
  shm_open_ret :: int
  fcntl_setlkw_ok :: bool
  fcntl_setlk_ok :: bool
  ftruncate_ok :: bool
  mmap_ok :: bool
  munmap_ok :: bool
  shm_unlink_ok :: bool
  host_segments :: hashtable_t
  allocate_ret :: c_int

text \<open>
  The state follows one topic. \<open>hdr\<close>, \<open>ref_bits\<close> and \<open>entries\<close> are the contents of the
  topic's shared segment: the header, the rows, and the entry area as one array of cells in
  which \<^verbatim>\<open>get_entry\<close> addresses cell \<open>col * len + i\<close>. \<open>st_size\<close> is the size of the
  segment's file (zero before its creation), \<open>linked\<close> whether its name exists, \<open>mapped\<close>
  whether this process has the segment mapped (\<^verbatim>\<open>elem\<close> of the node is valid), \<open>mq_list\<close>
  the node of this process's \<^verbatim>\<open>mq_list\<close> for the topic, \<open>fl\<close> the file lock held, \<open>ht\<close> the
  per-process allocator registry and \<open>calls\<close> the allocator operations performed so far.
\<close>

record hazcat_state =
  hdr :: message_queue_t
  ref_bits :: "nat \<Rightarrow> ref_bits_t"
  entries :: "nat \<Rightarrow> entry_t"
  st_size :: size_t
  linked :: bool
  mapped :: bool
  mq_list :: "mq_node_t option"
  fl :: l_type
  ht :: hashtable_t
  calls :: "alloc_call list"

subsection \<open>Sizes and addresses\<close>

definition sizeof_message_queue_t :: size_t where
  "sizeof_message_queue_t = 160"

definition sizeof_ref_bits_t :: size_t where
  "sizeof_ref_bits_t = 16"

definition sizeof_entry_t :: size_t where
  "sizeof_entry_t = 16"

text \<open>The size both the creation and the resize of \<^verbatim>\<open>hazcat_register_pub_or_sub\<close> compute.\<close>

definition mq_size :: "c_int \<Rightarrow> size_t" where
  "mq_size d = sizeof_message_queue_t + scast d * sizeof_ref_bits_t + scast d * sizeof_entry_t"

text \<open>\<^verbatim>\<open>get_entry(mq, domain, i)\<close>: the cell of column \<open>col\<close> and row \<open>i\<close>.\<close>

definition get_entry :: "message_queue_t \<Rightarrow> nat \<Rightarrow> nat \<Rightarrow> nat" where
  "get_entry q col i = col * unat (len q) + i"

text \<open>A row index that \<^verbatim>\<open>get_ref_bits\<close> may be given: inside \<open>ref_bits[len]\<close>.\<close>

definition row_ok :: "message_queue_t \<Rightarrow> c_int \<Rightarrow> bool" where
  "row_ok q i = (0 \<le> sint i \<and> nat (sint i) < unat (len q))"

definition row :: "c_int \<Rightarrow> nat" where
  "row i = nat (sint i)"

text \<open>Modelled from the spec: \<open>pointer = header_base + offset\<close> and its inverse, the macros
  \<^verbatim>\<open>GET_PTR\<close> and \<^verbatim>\<open>PTR_TO_OFFSET\<close> of the absent \<^verbatim>\<open>hma_template.h\<close>.\<close>

definition GET_PTR :: "hma_allocator \<Rightarrow> size_t \<Rightarrow> pointer" where
  "GET_PTR a ofs = base a + ofs"

definition PTR_TO_OFFSET :: "hma_allocator \<Rightarrow> pointer \<Rightarrow> size_t" where
  "PTR_TO_OFFSET a p = p - base a"

subsection \<open>The allocator registry\<close>

text \<open>
  Modelled from the spec: \<^verbatim>\<open>rmw_hazcat/hashtable.h\<close> is not among the sources. The registry
  maps a segment id to the allocator attached in this process; \<open>get\<close> attaches the segment if
  it is not yet mapped here, and yields no allocator (\<^verbatim>\<open>NULL\<close>) when no such segment exists.
\<close>

definition hashtable_insert :: "hashtable_t \<Rightarrow> c_int \<Rightarrow> hma_allocator \<Rightarrow> hashtable_t" where
  "hashtable_insert h k a = h(k \<mapsto> a)"

definition hashtable_remove :: "hashtable_t \<Rightarrow> c_int \<Rightarrow> hashtable_t" where
  "hashtable_remove h k = h(k := None)"

definition hashtable_get :: "os_env \<Rightarrow> hashtable_t \<Rightarrow> c_int \<Rightarrow> hma_allocator option \<times> hashtable_t" where
  "hashtable_get env h k =
     (case h k of
        Some a \<Rightarrow> (Some a, h)
      | None \<Rightarrow> (case host_segments env k of
                   Some a \<Rightarrow> (Some a, h(k \<mapsto> a))
                 | None \<Rightarrow> (None, h)))"

text \<open>The allocator a lookup of \<open>k\<close> yields, without the attachment it may cause.\<close>

definition resolve :: "os_env \<Rightarrow> hashtable_t \<Rightarrow> c_int \<Rightarrow> hma_allocator option" where
  "resolve env h k = (case h k of Some a \<Rightarrow> Some a | None \<Rightarrow> host_segments env k)"

section \<open>Publish and take\<close>

text \<open>\<^verbatim>\<open>ref_bits->availability & (1 << d)\<close>: column \<open>d\<close> holds a copy.\<close>

definition has_copy :: "32 word \<Rightarrow> nat \<Rightarrow> bool" where
  "has_copy av d = (av AND push_bit d 1 \<noteq> 0)"

text \<open>
  The loops of \<^verbatim>\<open>hazcat_publish\<close> (lines 321-327, over all \<open>DOMAINS_PER_TOPIC\<close> columns) and of
  \<^verbatim>\<open>hazcat_take\<close> (lines 453-459, over \<open>num_domains\<close> columns) that deallocate every copy of
  row \<open>i\<close> whose availability bit is set. \<^verbatim>\<open>1 << d\<close> is undefined from \<open>d = 32\<close> on, and
  \<^verbatim>\<open>DEALLOCATE\<close> dereferences the allocator.
\<close>

fun release_copies ::
  "os_env \<Rightarrow> message_queue_t \<Rightarrow> (nat \<Rightarrow> entry_t) \<Rightarrow> 32 word \<Rightarrow> nat \<Rightarrow> nat list \<Rightarrow>
   hashtable_t \<Rightarrow> alloc_call list \<Rightarrow> fault + (hashtable_t \<times> alloc_call list)" where
  "release_copies env q es av i [] h cs = Inr (h, cs)"
| "release_copies env q es av i (d # ds) h cs =
     (if 32 \<le> d then Inl ShiftTooFar
      else if has_copy av d then
        (let entry = es (get_entry q d i);
             (src_alloc, h') = hashtable_get env h (alloc_shmem_id entry)
         in case src_alloc of
              None \<Rightarrow> Inl NullPointer
            | Some a \<Rightarrow> release_copies env q es av i ds h' (cs @ [DEALLOCATE a (offset entry)]))
      else release_copies env q es av i ds h cs)"

text \<open>
  The atomic operations in a sequential run, where no other thread writes between two steps
  and the compare-and-exchange does not fail spuriously. \<open>atomic_fetch_add\<close> yields the old
  value and the value stored; \<open>atomic_compare_exchange_weak\<close> yields whether it stored
  \<open>desired\<close>, the value of the object afterwards and the value of \<open>expected\<close> afterwards.
\<close>

definition atomic_fetch_add :: "'a::len word \<Rightarrow> 'a word \<Rightarrow> 'a word \<times> 'a word" where
  "atomic_fetch_add obj arg = (obj, obj + arg)"

definition atomic_compare_exchange_weak ::
  "'a::len word \<Rightarrow> 'a word \<Rightarrow> 'a word \<Rightarrow> bool \<times> 'a word \<times> 'a word" where
  "atomic_compare_exchange_weak obj expected desired =
     (if obj = expected then (True, desired, expected) else (False, obj, obj))"

text \<open>\<^verbatim>\<open>lock_domain\<close> (lines 69-73): the loop stores \<open>bit_mask & val\<close> once \<open>val\<close> is the
  value of the lock. The result is the value of the lock afterwards.\<close>

function lock_loop :: "64 word \<Rightarrow> 64 word \<Rightarrow> c_int \<Rightarrow> 64 word" where
  "lock_loop obj val bit_mask =
     (case atomic_compare_exchange_weak obj val (scast bit_mask AND val) of
        (True, obj', val') \<Rightarrow> obj'
      | (False, obj', val') \<Rightarrow> lock_loop obj' val' bit_mask)"
  by pat_completeness auto
termination
  by (relation "measure (\<lambda>(obj, val, bit_mask). if obj = val then 0 else 1)")
     (auto simp: atomic_compare_exchange_weak_def split: if_splits)

declare lock_loop.simps [simp del]

definition lock_domain :: "64 word \<Rightarrow> c_int \<Rightarrow> 64 word" where
  "lock_domain lck bit_mask = lock_loop lck lck bit_mask"

text \<open>Line 310 of \<^verbatim>\<open>hazcat_publish\<close>: the loop that stores \<open>v % len\<close> in \<open>index\<close> once \<open>v\<close> is
  the value of \<open>index\<close>. The result is the value of \<open>index\<close> afterwards.\<close>

function reduce_index :: "c_int \<Rightarrow> c_int \<Rightarrow> size_t \<Rightarrow> c_int" where
  "reduce_index obj v l =
     (case atomic_compare_exchange_weak obj v (ucast ((scast v :: size_t) mod l)) of
        (True, obj', v') \<Rightarrow> obj'
      | (False, obj', v') \<Rightarrow> reduce_index obj' v' l)"
  by pat_completeness auto
termination
  by (relation "measure (\<lambda>(obj, v, l). if obj = v then 0 else 1)")
     (auto simp: atomic_compare_exchange_weak_def split: if_splits)

declare reduce_index.simps [simp del]

text \<open>
  \<^verbatim>\<open>hazcat_publish\<close>. The fetch-and-add returns the slot \<open>i\<close> and leaves \<open>i + 1\<close> in
  \<open>index\<close>; the loop of compare-and-exchange then reduces \<open>index\<close> modulo \<open>len\<close>.
\<close>

definition hazcat_publish ::
  "os_env \<Rightarrow> hazcat_state \<Rightarrow> pub_sub_data_t \<Rightarrow> pointer \<Rightarrow> size_t \<Rightarrow>
   fault + (rmw_ret_t \<times> hazcat_state)" where
  "hazcat_publish env st pub msg l =
     (if mq pub = None then Inl NullPointer
      else if \<not> fcntl_setlkw_ok env then Inr (RMW_RET_ERROR, st)
      else
        let st1 = st\<lparr>fl := F_RDLCK\<rparr>;
            a = alloc pub;
            q = hdr st1;
            domain_col = unat (array_num pub);
            (i, index1) = atomic_fetch_add (index q) 1;
            v = i + 1
        in if \<not> mapped st1 then Inl UseAfterUnmap
           else if len q = 0 then Inl DivisionByZero
           else
             let q' = q\<lparr>index := reduce_index index1 v (len q)\<rparr>
             in if \<not> row_ok q' i then Inl OutOfBounds
                else
                  let rb = (ref_bits st1 (row i))
                             \<lparr>lock := lock_domain (lock (ref_bits st1 (row i))) 255\<rparr>;
                      released =
                        (if 0 < interest_count rb
                         then release_copies env q' (entries st1) (availability rb) (row i)
                                [0..<DOMAINS_PER_TOPIC] (ht st1) (calls st1)
                         else Inr (ht st1, calls st1))
                  in case released of
                       Inl f \<Rightarrow> Inl f
                     | Inr (h, cs) \<Rightarrow>
                         if 32 \<le> domain_col then Inl ShiftTooFar
                         else
                           let entry = \<lparr>alloc_shmem_id = shmem_id a,
                                        offset = ucast (PTR_TO_OFFSET a msg),
                                        len_e = l\<rparr>;
                               rb' = rb\<lparr>availability := push_bit domain_col 1,
                                        interest_count := ucast (sub_count q'),
                                        lock := 0\<rparr>;
                               st2 = st1\<lparr>hdr := q',
                                         ref_bits := fun_upd (ref_bits st1) (row i) rb',
                                         entries := fun_upd (entries st1)
                                                      (get_entry q' domain_col (row i)) entry,
                                         ht := h,
                                         calls := cs\<rparr>
                           in if \<not> fcntl_setlk_ok env then Inr (RMW_RET_ERROR, st2)
                              else Inr (RMW_RET_OK, st2\<lparr>fl := F_UNLCK\<rparr>))"

text \<open>
  The candidate slot of \<^verbatim>\<open>hazcat_take\<close> (lines 375-378). The comparison and both
  remainders are computed in \<^verbatim>\<open>size_t\<close>; the result is stored in an \<^verbatim>\<open>int\<close>.
\<close>

definition take_candidate :: "message_queue_t \<Rightarrow> pub_sub_data_t \<Rightarrow> c_int" where
  "take_candidate q sub =
     (let i = (ucast (next_index sub) :: c_int);
          history = depth sub
      in if (scast history :: size_t) < (scast (index q) + len q - scast i) mod len q
         then ucast ((scast (index q) + len q - scast history) mod len q)
         else i)"

text \<open>The lowest column whose availability bit is set (lines 409-412); with no bit set the
  loop reaches the undefined \<^verbatim>\<open>1 << 32\<close>.\<close>

definition first_available :: "32 word \<Rightarrow> nat option" where
  "first_available av = find (\<lambda>d. \<not> (push_bit d 1 AND NOT av \<noteq> 0)) [0..<32]"

text \<open>Lines 392-403: the message is in the preferred domain.\<close>

definition take_preferred ::
  "os_env \<Rightarrow> hazcat_state \<Rightarrow> pub_sub_data_t \<Rightarrow> c_int \<Rightarrow> fault + (msg_ref_t \<times> hazcat_state)" where
  "take_preferred env st sub i =
     (let a = alloc sub;
          q = hdr st
      in if sint (domain a) < 0 then Inl OutOfBounds
         else
           let entry = entries st (get_entry q (unat (domain a)) (row i));
               (src_alloc, h) = hashtable_get env (ht st) (alloc_shmem_id entry)
           in case src_alloc of
                None \<Rightarrow> Inl NullPointer
              | Some src \<Rightarrow>
                  Inr (\<lparr>ref_alloc = Some src, ref_msg = GET_PTR src (ucast (offset entry))\<rparr>,
                       st\<lparr>ht := h, calls := calls st @ [SHARE src (offset entry)]\<rparr>))"

text \<open>Lines 405-448: copy the message from the first domain that has it.\<close>

definition take_copy ::
  "os_env \<Rightarrow> hazcat_state \<Rightarrow> pub_sub_data_t \<Rightarrow> c_int \<Rightarrow> fault + (msg_ref_t \<times> hazcat_state)" where
  "take_copy env st sub i =
     (let a = alloc sub;
          q = hdr st;
          rb = ref_bits st (row i)
      in case first_available (availability rb) of
           None \<Rightarrow> Inl ShiftTooFar
         | Some d \<Rightarrow>
             let entry = entries st (get_entry q d (row i));
                 (src_alloc, h) = hashtable_get env (ht st) (alloc_shmem_id entry)
             in (case src_alloc of
                  None \<Rightarrow> Inl NullPointer
                | Some src \<Rightarrow>
                    let msg = GET_PTR src (ucast (offset entry));
                        here = GET_PTR a (scast (allocate_ret env));
                        cs = calls st @ [ALLOCATE a (len_e entry)]
                    in if \<not> base a < here then Inl AssertionFailed
                       else
                         let copy_call =
                               (if domain src = CPU then COPY_TO a here msg (len_e entry)
                                else if domain a = CPU then COPY_FROM src msg here (len_e entry)
                                else COPY a here src msg (len_e entry));
                             l = (ucast (len_e entry) :: c_int);
                             entry' = \<lparr>alloc_shmem_id = shmem_id a,
                                       offset = ucast (PTR_TO_OFFSET a here),
                                       len_e = scast l\<rparr>;
                             rb' = rb\<lparr>availability :=
                                        availability rb OR push_bit (unat (array_num sub)) 1\<rparr>
                         in Inr (\<lparr>ref_alloc = Some a, ref_msg = here\<rparr>,
                                 st\<lparr>ref_bits := fun_upd (ref_bits st) (row i) rb',
                                    entries := fun_upd (entries st)
                                                 (get_entry q (unat (array_num sub)) (row i)) entry',
                                    ht := h,
                                    calls := cs @ [copy_call]\<rparr>)))"

text \<open>Lines 451-460: the taker gives up its interest; the last one frees every copy.\<close>

definition take_release ::
  "os_env \<Rightarrow> hazcat_state \<Rightarrow> c_int \<Rightarrow> fault + hazcat_state" where
  "take_release env st i =
     (let q = hdr st;
          rb = (ref_bits st (row i))\<lparr>interest_count := interest_count (ref_bits st (row i)) - 1\<rparr>;
          st' = st\<lparr>ref_bits := fun_upd (ref_bits st) (row i) rb\<rparr>
      in if interest_count rb \<le> 0
         then (case release_copies env q (entries st') (availability rb) (row i)
                      [0..<unat (num_domains q)] (ht st') (calls st') of
                 Inl f \<Rightarrow> Inl f
               | Inr (h, cs) \<Rightarrow> Inr (st'\<lparr>ht := h, calls := cs\<rparr>))
         else Inr st')"

text \<open>Lines 391-449: the test of the subscriber's column in the availability mask.\<close>

definition take_fetch ::
  "os_env \<Rightarrow> hazcat_state \<Rightarrow> pub_sub_data_t \<Rightarrow> c_int \<Rightarrow> fault + (msg_ref_t \<times> hazcat_state)" where
  "take_fetch env st sub i =
     (if push_bit (unat (array_num sub)) 1 AND availability (ref_bits st (row i)) \<noteq> 0
      then take_preferred env st sub i
      else take_copy env st sub i)"

definition null_ref :: msg_ref_t where
  "null_ref = \<lparr>ref_alloc = None, ref_msg = 0\<rparr>"

text \<open>
  \<^verbatim>\<open>hazcat_take\<close>. The result is the message reference, the new state and the subscriber's
  data. A failure to release the file lock at the end is only reported (line 467).
\<close>

definition hazcat_take ::
  "os_env \<Rightarrow> hazcat_state \<Rightarrow> pub_sub_data_t \<Rightarrow>
   fault + (msg_ref_t \<times> hazcat_state \<times> pub_sub_data_t)" where
  "hazcat_take env st sub =
     (if mq sub = None then Inl NullPointer
      else if \<not> fcntl_setlkw_ok env then Inr (null_ref, st, sub)
      else
        let st1 = st\<lparr>fl := F_RDLCK\<rparr>;
            q = hdr st1
        in if \<not> mapped st1 then Inl UseAfterUnmap
           else if len q = 0 then Inl DivisionByZero
           else
             let i = take_candidate q sub
             in if i = index q then Inr (null_ref, st1, sub)
                else if \<not> row_ok q i then Inl OutOfBounds
                else if 32 \<le> unat (array_num sub) then Inl ShiftTooFar
                else
                  case take_fetch env st1 sub i of
                    Inl f \<Rightarrow> Inl f
                  | Inr (ret, st2) \<Rightarrow>
                      (case take_release env st2 i of
                         Inl f \<Rightarrow> Inl f
                       | Inr st3 \<Rightarrow>
                           let sub' = sub\<lparr>next_index :=
                                            ucast ((scast (i + 1) :: size_t) mod len q)\<rparr>;
                               st4 = (if fcntl_setlk_ok env then st3\<lparr>fl := F_UNLCK\<rparr>
                                      else st3)
                           in Inr (ret, st4, sub')))"

section \<open>Registration and unregistration\<close>

text \<open>
  The model follows one topic, so the name built in \<^verbatim>\<open>shmem_file\<close> and the search of
  \<^verbatim>\<open>mq_list\<close> by name are not part of it: \<open>mq_list st\<close> is the outcome of that search.
  A segment that is created is filled with zeros by \<^verbatim>\<open>ftruncate\<close>.
\<close>

definition zero_ref_bits :: ref_bits_t where
  "zero_ref_bits = \<lparr>interest_count = 0, availability = 0, lock = 0\<rparr>"

definition zero_entry :: entry_t where
  "zero_entry = \<lparr>alloc_shmem_id = 0, offset = 0, len_e = 0\<rparr>"

text \<open>Lines 141-150: the header of a queue that has just been created.\<close>

definition fresh_queue :: "pub_sub_data_t \<Rightarrow> message_queue_t" where
  "fresh_queue data =
     (let q0 = \<lparr>index = 0, len = scast (depth data), num_domains = 1,
                domains = fun_upd (\<lambda>_. 0) 0 CPU, pub_count = 0, sub_count = 0\<rparr>
      in if domain (alloc data) \<noteq> CPU
         then q0\<lparr>num_domains := num_domains q0 + 1,
                 domains := fun_upd (domains q0) 1 (domain (alloc data))\<rparr>
         else q0)"

text \<open>Lines 103-177: find or open the queue, take the write lock, create the segment when
  its file is empty.\<close>

definition open_queue ::
  "os_env \<Rightarrow> hazcat_state \<Rightarrow> pub_sub_data_t \<Rightarrow> rmw_ret_t \<times> hazcat_state" where
  "open_queue env st data =
     (case mq_list st of
        None \<Rightarrow>
          if shm_open_ret env = - 1 then (RMW_RET_ERROR, st)
          else
            let st1 = (if linked st then st else st\<lparr>st_size := 0, linked := True\<rparr>)
            in if \<not> fcntl_setlkw_ok env then (RMW_RET_ERROR, st1)
               else
                 let st2 = st1\<lparr>fl := F_WRLCK\<rparr>
                 in if st_size st2 = 0 then
                      (if \<not> ftruncate_ok env then (RMW_RET_ERROR, st2)
                       else
                         let st3 = st2\<lparr>st_size := mq_size (depth data)\<rparr>
                         in if \<not> mmap_ok env then (RMW_RET_ERROR, st3)
                            else (RMW_RET_OK,
                                  st3\<lparr>hdr := fresh_queue data,
                                      ref_bits := (\<lambda>_. zero_ref_bits),
                                      entries := (\<lambda>_. zero_entry),
                                      mapped := True,
                                      mq_list := Some \<lparr>fd = shm_open_ret env\<rparr>\<rparr>))
                    else
                      (if \<not> mmap_ok env then (RMW_RET_ERROR, st2)
                       else (RMW_RET_OK,
                             st2\<lparr>mapped := True, mq_list := Some \<lparr>fd = shm_open_ret env\<rparr>\<rparr>))
      | Some it \<Rightarrow>
          if \<not> fcntl_setlkw_ok env then (RMW_RET_ERROR, st)
          else (RMW_RET_OK, st\<lparr>fl := F_WRLCK\<rparr>))"

text \<open>
  Lines 208-211 enlarge \<open>len\<close> and move no data. The rows keep their place, and the entry
  area, which starts behind \<open>ref_bits[len]\<close>, starts further back: with a row and a cell
  both 16 bytes of the same field sizes, what were the first \<open>l' - l\<close> cells are now the rows
  \<open>l\<close> to \<open>l' - 1\<close>, and cell \<open>k\<close> is what was cell \<open>k + (l' - l)\<close>.
\<close>

definition ref_bits_of_entry :: "entry_t \<Rightarrow> ref_bits_t" where
  "ref_bits_of_entry e =
     \<lparr>interest_count = alloc_shmem_id e, availability = offset e, lock = len_e e\<rparr>"

definition relayout :: "size_t \<Rightarrow> size_t \<Rightarrow> hazcat_state \<Rightarrow> hazcat_state" where
  "relayout l l' st =
     st\<lparr>ref_bits := (\<lambda>r. if r < unat l then ref_bits st r
                          else ref_bits_of_entry (entries st (r - unat l))),
        entries := (\<lambda>k. entries st (k + (unat l' - unat l)))\<rparr>"

text \<open>
  \<^verbatim>\<open>ftruncate(fd, s)\<close> of line 216 on the shared file. A size below the present one
  cuts the file: the bytes from \<open>s\<close> on are lost, and read as zero through the mappings of
  the file (an access to a page that lies wholly behind the new end would fault; the model
  gives the zero bytes of the last page there too). Row \<open>r\<close> is at byte
  \<open>sizeof(message_queue_t) + r * sizeof(ref_bits_t)\<close>, cell \<open>k\<close> of the entry area at byte
  \<open>sizeof(message_queue_t) + len * sizeof(ref_bits_t) + k * sizeof(entry_t)\<close> (lines 76-84),
  and the fields of the header at the bytes 0 (\<open>index\<close>), 8 (\<open>len\<close>), 16 (\<open>num_domains\<close>),
  \<open>24 + 4 * i\<close> (\<open>domains[i]\<close>), 152 (\<open>pub_count\<close>) and 154 (\<open>sub_count\<close>). Every size the
  code computes is \<open>160 + 32 * depth\<close>, modulo \<open>2 ^ 64\<close>, so the cut falls between two rows,
  cells or fields. A size that is not below the present one keeps what the file holds.
\<close>

definition cut_header :: "size_t \<Rightarrow> message_queue_t \<Rightarrow> message_queue_t" where
  "cut_header s q =
     \<lparr>index = (if 0 < s then index q else 0),
      len = (if 8 < s then len q else 0),
      num_domains = (if 16 < s then num_domains q else 0),
      domains = (\<lambda>i. if 24 + 4 * i < unat s then domains q i else 0),
      pub_count = (if 152 < s then pub_count q else 0),
      sub_count = (if 154 < s then sub_count q else 0)\<rparr>"

definition ftruncate :: "size_t \<Rightarrow> hazcat_state \<Rightarrow> hazcat_state" where
  "ftruncate s st =
     (if s < st_size st
      then st\<lparr>hdr := cut_header s (hdr st),
              ref_bits := (\<lambda>r. if unat sizeof_message_queue_t + r * unat sizeof_ref_bits_t
                                   < unat s
                                then ref_bits st r else zero_ref_bits),
              entries := (\<lambda>k. if unat sizeof_message_queue_t
                                     + unat (len (hdr st)) * unat sizeof_ref_bits_t
                                     + k * unat sizeof_entry_t < unat s
                                then entries st k else zero_entry),
              st_size := s\<rparr>
      else st\<lparr>st_size := s\<rparr>)"

text \<open>Lines 181-188: the value of \<open>i\<close> when the search for the endpoint's domain ends.\<close>

definition find_domain :: "32 word \<Rightarrow> message_queue_t \<Rightarrow> nat" where
  "find_domain d q =
     (case find (\<lambda>i. d = domains q i) [0..<DOMAINS_PER_TOPIC] of
        Some i \<Rightarrow> i
      | None \<Rightarrow> DOMAINS_PER_TOPIC)"

definition hazcat_register_pub_or_sub ::
  "os_env \<Rightarrow> hazcat_state \<Rightarrow> pub_sub_data_t \<Rightarrow>
   fault + (rmw_ret_t \<times> hazcat_state \<times> pub_sub_data_t)" where
  "hazcat_register_pub_or_sub env st data =
     (let st0 = st\<lparr>ht := hashtable_insert (ht st) (shmem_id (alloc data)) (alloc data)\<rparr>;
          (r, st1) = open_queue env st0 data
      in if r \<noteq> RMW_RET_OK then Inr (r, st1, data)
         else if \<not> mapped st1 then Inl UseAfterUnmap
         else
           let q = hdr st1;
               i = find_domain (domain (alloc data)) q
           in if i = DOMAINS_PER_TOPIC \<and> unat (num_domains q) = DOMAINS_PER_TOPIC
              then Inr (RMW_RET_ERROR, st1, data)
              else if i = DOMAINS_PER_TOPIC \<and> DOMAINS_PER_TOPIC < unat (num_domains q)
              then Inl OutOfBounds
              else
                let (data1, q1, needs_resize1) =
                      (if i = DOMAINS_PER_TOPIC
                       then (data\<lparr>array_num := ucast (num_domains q)\<rparr>,
                             q\<lparr>num_domains := num_domains q + 1,
                               domains := fun_upd (domains q) (unat (num_domains q))
                                            (domain (alloc data))\<rparr>,
                             True)
                       else (data\<lparr>array_num := of_nat i\<rparr>, q, False));
                    (q2, needs_resize2) =
                      (if len q1 < scast (depth data)
                       then (q1\<lparr>len := scast (depth data)\<rparr>, True)
                       else (q1, needs_resize1));
                    st2 = (if len q1 < scast (depth data)
                           then relayout (len q1) (len q2) (st1\<lparr>hdr := q2\<rparr>)
                           else st1\<lparr>hdr := q2\<rparr>)
                in if needs_resize2 then
                     (if \<not> ftruncate_ok env then Inr (RMW_RET_ERROR, st2, data1)
                      else Inr (RMW_RET_OK, ftruncate (mq_size (depth data)) st2,
                                data1\<lparr>mq := mq_list st2\<rparr>))
                   else Inr (RMW_RET_OK, st2, data1\<lparr>mq := mq_list st2\<rparr>))"

text \<open>Lines 249-256 and 281-288: release the lock at the end of a registration.\<close>

definition release_lock ::
  "os_env \<Rightarrow> hazcat_state \<Rightarrow> pub_sub_data_t \<Rightarrow>
   fault + (rmw_ret_t \<times> hazcat_state \<times> pub_sub_data_t)" where
  "release_lock env st data =
     (if \<not> fcntl_setlk_ok env then Inr (RMW_RET_ERROR, st, data)
      else Inr (RMW_RET_OK, st\<lparr>fl := F_UNLCK\<rparr>, data))"

definition UINT16_MAX :: "16 word" where
  "UINT16_MAX = 65535"

definition hazcat_register_publisher ::
  "os_env \<Rightarrow> hazcat_state \<Rightarrow> pub_sub_data_t \<Rightarrow>
   fault + (rmw_ret_t \<times> hazcat_state \<times> pub_sub_data_t)" where
  "hazcat_register_publisher env st pub =
     (case hazcat_register_pub_or_sub env st pub of
        Inl f \<Rightarrow> Inl f
      | Inr (ret, st1, pub1) \<Rightarrow>
          if ret \<noteq> RMW_RET_OK then Inr (ret, st1, pub1)
          else if pub_count (hdr st1) < UINT16_MAX
          then release_lock env
                 (st1\<lparr>hdr := (hdr st1)\<lparr>pub_count := pub_count (hdr st1) + 1\<rparr>\<rparr>) pub1
          else Inr (RMW_RET_ERROR, st1, pub1))"

definition hazcat_register_subscription ::
  "os_env \<Rightarrow> hazcat_state \<Rightarrow> pub_sub_data_t \<Rightarrow>
   fault + (rmw_ret_t \<times> hazcat_state \<times> pub_sub_data_t)" where
  "hazcat_register_subscription env st sub =
     (case hazcat_register_pub_or_sub env st sub of
        Inl f \<Rightarrow> Inl f
      | Inr (ret, st1, sub1) \<Rightarrow>
          if ret \<noteq> RMW_RET_OK then Inr (ret, st1, sub1)
          else
            let sub2 = sub1\<lparr>next_index := ucast (index (hdr st1))\<rparr>
            in if sub_count (hdr st1) < UINT16_MAX
               then release_lock env
                      (st1\<lparr>hdr := (hdr st1)\<lparr>sub_count := sub_count (hdr st1) + 1\<rparr>\<rparr>) sub2
               else Inr (RMW_RET_ERROR, st1, sub2))"

text \<open>Lines 507-535 and 570-591: destroy the queue when no endpoint is left, then release
  the lock.\<close>

definition destroy_if_unused ::
  "os_env \<Rightarrow> hazcat_state \<Rightarrow> pub_sub_data_t \<Rightarrow>
   fault + (rmw_ret_t \<times> hazcat_state \<times> pub_sub_data_t)" where
  "destroy_if_unused env st data =
     (if pub_count (hdr st) = 0 \<and> sub_count (hdr st) = 0 then
        (if \<not> munmap_ok env then Inr (RMW_RET_ERROR, st, data)
         else
           let st1 = st\<lparr>mapped := False\<rparr>
           in if \<not> shm_unlink_ok env then Inr (RMW_RET_ERROR, st1, data)
              else release_lock env (st1\<lparr>st_size := 0, linked := False\<rparr>) data)
      else release_lock env st data)"

definition hazcat_unregister_publisher ::
  "os_env \<Rightarrow> hazcat_state \<Rightarrow> pub_sub_data_t \<Rightarrow>
   fault + (rmw_ret_t \<times> hazcat_state \<times> pub_sub_data_t)" where
  "hazcat_unregister_publisher env st pub =
     (let st0 = st\<lparr>ht := hashtable_remove (ht st) (shmem_id (alloc pub))\<rparr>
      in case mq pub of
           None \<Rightarrow> Inr (RMW_RET_INVALID_ARGUMENT, st0, pub)
         | Some it \<Rightarrow>
             let pub' = pub\<lparr>mq := None\<rparr>
             in if \<not> fcntl_setlkw_ok env then Inr (RMW_RET_ERROR, st0, pub')
                else
                  let st1 = st0\<lparr>fl := F_WRLCK\<rparr>
                  in if \<not> mapped st1 then Inl UseAfterUnmap
                     else if 0 < pub_count (hdr st1)
                     then destroy_if_unused env
                            (st1\<lparr>hdr := (hdr st1)\<lparr>pub_count := pub_count (hdr st1) - 1\<rparr>\<rparr>) pub'
                     else Inr (RMW_RET_ERROR, st1, pub'))"

definition hazcat_unregister_subscription ::
  "os_env \<Rightarrow> hazcat_state \<Rightarrow> pub_sub_data_t \<Rightarrow>
   fault + (rmw_ret_t \<times> hazcat_state \<times> pub_sub_data_t)" where
  "hazcat_unregister_subscription env st sub =
     (let st0 = st\<lparr>ht := hashtable_remove (ht st) (shmem_id (alloc sub))\<rparr>
      in case mq sub of
           None \<Rightarrow> Inr (RMW_RET_INVALID_ARGUMENT, st0, sub)
         | Some it \<Rightarrow>
             let sub' = sub\<lparr>mq := None\<rparr>
             in if \<not> fcntl_setlkw_ok env then Inr (RMW_RET_ERROR, st0, sub')
                else
                  let st1 = st0\<lparr>fl := F_WRLCK\<rparr>
                  in if \<not> mapped st1 then Inl UseAfterUnmap
                     else if 0 < sub_count (hdr st1)
                     then destroy_if_unused env
                            (st1\<lparr>hdr := (hdr st1)\<lparr>sub_count := sub_count (hdr st1) - 1\<rparr>\<rparr>) sub'
                     else Inr (RMW_RET_ERROR, st1, sub'))"

section \<open>The deallocations of a row\<close>

text \<open>
  The calls that release the copies of row \<open>i\<close> in the columns \<open>ds\<close>: for each column whose
  availability bit is set, in order, one \<^verbatim>\<open>DEALLOCATE\<close> of the offset stored in the row's
  cell of that column, on the allocator that the registry yields for the cell's
  \<open>alloc_shmem_id\<close>.
\<close>

definition dealloc_of :: "os_env \<Rightarrow> hashtable_t \<Rightarrow> entry_t \<Rightarrow> alloc_call list" where
  "dealloc_of env h e =
     (case resolve env h (alloc_shmem_id e) of
        Some a \<Rightarrow> [DEALLOCATE a (offset e)]
      | None \<Rightarrow> [])"

definition copies_released ::
  "os_env \<Rightarrow> hashtable_t \<Rightarrow> message_queue_t \<Rightarrow> (nat \<Rightarrow> entry_t) \<Rightarrow> 32 word \<Rightarrow> nat \<Rightarrow> nat list \<Rightarrow>
   alloc_call list" where
  "copies_released env h q es av i ds =
     concat (map (\<lambda>d. dealloc_of env h (es (get_entry q d i))) (filter (has_copy av) ds))"

section \<open>Keep-last\<close>

text \<open>
  The candidate slot in the spec's words, on integers: \<open>skew\<close> is
  \<open>(index + len - next_index) mod len\<close>, and the candidate is \<open>next_index\<close> when the skew is at
  most \<open>depth\<close>, \<open>(index + len - depth) mod len\<close> otherwise.
\<close>

definition skew :: "int \<Rightarrow> int \<Rightarrow> int \<Rightarrow> int" where
  "skew idx n ni = (idx + n - ni) mod n"

definition keep_last_slot :: "int \<Rightarrow> int \<Rightarrow> int \<Rightarrow> int \<Rightarrow> int" where
  "keep_last_slot idx n ni dep = (if skew idx n ni \<le> dep then ni else (idx + n - dep) mod n)"

text \<open>A registration changes a row of the queue in two ways only, and both make it zero: it
  creates the segment, or its resize cuts the file at or before the row.\<close>

definition row_kept_or_cut :: "hazcat_state \<Rightarrow> hazcat_state \<Rightarrow> nat \<Rightarrow> bool" where
  "row_kept_or_cut st st' j =
     (ref_bits st' j = ref_bits st j
      \<or> (ref_bits st' j = zero_ref_bits
         \<and> ((mq_list st = None \<and> (\<not> linked st \<or> st_size st = 0))
            \<or> (st_size st' < st_size st \<and> unat (st_size st') \<le> 160 + 16 * j))))"

section \<open>Concrete queues and endpoints\<close>

definition ex_env :: os_env where
  "ex_env = \<lparr>shm_open_ret = 3, fcntl_setlkw_ok = True, fcntl_setlk_ok = True,
              ftruncate_ok = True, mmap_ok = True, munmap_ok = True, shm_unlink_ok = True,
              host_segments = (\<lambda>_. None), allocate_ret = 256\<rparr>"

definition cpu_alloc :: hma_allocator where
  "cpu_alloc = \<lparr>base = 4096, shmem_id = 7, strategy = 0, device_type = 0,
                 device_number = 0, domain = CPU\<rparr>"

definition gpu0_alloc :: hma_allocator where
  "gpu0_alloc = \<lparr>base = 65536, shmem_id = 9, strategy = 0, device_type = 1,
                  device_number = 0, domain = 1\<rparr>"

definition gpu1_alloc :: hma_allocator where
  "gpu1_alloc = \<lparr>base = 131072, shmem_id = 11, strategy = 0, device_type = 1,
                  device_number = 1, domain = 65537\<rparr>"

definition ex_node :: mq_node_t where
  "ex_node = \<lparr>fd = 3\<rparr>"

text \<open>A queue of depth 4 with the host column only, one publisher and one subscriber, and
  no message.\<close>

definition ex_empty :: hazcat_state where
  "ex_empty =
     \<lparr>hdr = \<lparr>index = 0, len = 4, num_domains = 1, domains = (\<lambda>_. 0),
              pub_count = 1, sub_count = 1\<rparr>,
      ref_bits = (\<lambda>_. zero_ref_bits), entries = (\<lambda>_. zero_entry),
      st_size = 288, linked = True, mapped = True, mq_list = Some ex_node,
      fl = F_UNLCK, ht = [7 \<mapsto> cpu_alloc], calls = []\<rparr>"

definition ex_cpu_endpoint :: pub_sub_data_t where
  "ex_cpu_endpoint = \<lparr>alloc = cpu_alloc, mq = Some ex_node, next_index = 0, array_num = 0,
                       depth = 4\<rparr>"

text \<open>An endpoint of device 0 that is not registered yet.\<close>

definition ex_gpu0_new :: pub_sub_data_t where
  "ex_gpu0_new = \<lparr>alloc = gpu0_alloc, mq = None, next_index = 0, array_num = 0, depth = 4\<rparr>"

text \<open>A queue with three columns: host memory, device 1 and device 0. The cell of column 1
  and row 0 still holds the copy of an earlier message.\<close>

definition ex_three :: hazcat_state where
  "ex_three =
     \<lparr>hdr = \<lparr>index = 0, len = 4, num_domains = 3,
              domains = (\<lambda>_. 0)(1 := 65537, 2 := 1), pub_count = 1, sub_count = 1\<rparr>,
      ref_bits = (\<lambda>_. zero_ref_bits),
      entries = (\<lambda>_. zero_entry)(4 := \<lparr>alloc_shmem_id = 11, offset = 640, len_e = 8\<rparr>),
      st_size = 416, linked = True, mapped = True, mq_list = Some ex_node,
      fl = F_UNLCK, ht = [9 \<mapsto> gpu0_alloc, 11 \<mapsto> gpu1_alloc], calls = []\<rparr>"

definition ex_gpu0_endpoint :: pub_sub_data_t where
  "ex_gpu0_endpoint = \<lparr>alloc = gpu0_alloc, mq = Some ex_node, next_index = 0, array_num = 2,
                        depth = 4\<rparr>"

definition ex_three_published :: hazcat_state where
  "ex_three_published =
     ex_three\<lparr>hdr := (hdr ex_three)\<lparr>index := 1\<rparr>,
              ref_bits := (ref_bits ex_three)
                (0 := \<lparr>interest_count = 1, availability = 4, lock = 0\<rparr>),
              entries := (entries ex_three)
                (8 := \<lparr>alloc_shmem_id = 9, offset = 128, len_e = 8\<rparr>)\<rparr>"

definition ex_three_taken :: hazcat_state where
  "ex_three_taken =
     ex_three_published
       \<lparr>ref_bits := (ref_bits ex_three_published)
                      (0 := \<lparr>interest_count = 0, availability = 4, lock = 0\<rparr>),
        calls := [SHARE gpu1_alloc 640, DEALLOCATE gpu0_alloc 128]\<rparr>"

text \<open>The queue \<open>ex_empty\<close> after its publisher has published offset 160 of its
  allocator, and after its subscriber has taken that message.\<close>

definition ex_cpu_published :: hazcat_state where
  "ex_cpu_published =
     ex_empty\<lparr>hdr := (hdr ex_empty)\<lparr>index := 1\<rparr>,
              ref_bits := (ref_bits ex_empty)
                (0 := \<lparr>interest_count = 1, availability = 1, lock = 0\<rparr>),
              entries := (entries ex_empty)
                (0 := \<lparr>alloc_shmem_id = 7, offset = 160, len_e = 8\<rparr>)\<rparr>"

definition ex_cpu_taken :: hazcat_state where
  "ex_cpu_taken =
     ex_cpu_published
       \<lparr>ref_bits := (ref_bits ex_cpu_published)
                      (0 := \<lparr>interest_count = 0, availability = 1, lock = 0\<rparr>),
        calls := [SHARE cpu_alloc 160, DEALLOCATE cpu_alloc 160]\<rparr>"

text \<open>The queue \<open>ex_empty\<close> after four messages that its subscriber has not taken: every
  row is live and the write cursor is back at row 0.\<close>

definition ex_full :: hazcat_state where
  "ex_full =
     ex_empty\<lparr>ref_bits := (\<lambda>_. zero_ref_bits)
                (0 := \<lparr>interest_count = 1, availability = 1, lock = 0\<rparr>,
                 1 := \<lparr>interest_count = 1, availability = 1, lock = 0\<rparr>,
                 2 := \<lparr>interest_count = 1, availability = 1, lock = 0\<rparr>,
                 3 := \<lparr>interest_count = 1, availability = 1, lock = 0\<rparr>),
              entries := (\<lambda>_. zero_entry)
                (0 := \<lparr>alloc_shmem_id = 7, offset = 160, len_e = 8\<rparr>,
                 1 := \<lparr>alloc_shmem_id = 7, offset = 168, len_e = 8\<rparr>,
                 2 := \<lparr>alloc_shmem_id = 7, offset = 176, len_e = 8\<rparr>,
                 3 := \<lparr>alloc_shmem_id = 7, offset = 184, len_e = 8\<rparr>)\<rparr>"

definition ex_full_published :: hazcat_state where
  "ex_full_published =
     ex_full\<lparr>hdr := (hdr ex_full)\<lparr>index := 1\<rparr>,
             ref_bits := (ref_bits ex_full)
                (0 := \<lparr>interest_count = 1, availability = 1, lock = 0\<rparr>),
             entries := (entries ex_full)
                (0 := \<lparr>alloc_shmem_id = 7, offset = 192, len_e = 8\<rparr>),
             calls := [DEALLOCATE cpu_alloc 160]\<rparr>"

text \<open>A process that has not opened the topic, whose segment does not exist yet.\<close>

definition ex_fresh :: hazcat_state where
  "ex_fresh =
     \<lparr>hdr = \<lparr>index = 0, len = 0, num_domains = 0, domains = (\<lambda>_. 0),
              pub_count = 0, sub_count = 0\<rparr>,
      ref_bits = (\<lambda>_. zero_ref_bits), entries = (\<lambda>_. zero_entry),
      st_size = 0, linked = False, mapped = False, mq_list = None,
      fl = F_UNLCK, ht = Map.empty, calls = []\<rparr>"

text \<open>The queue \<open>ex_empty\<close> after three messages, and a subscriber of depth 2 that has
  taken none of them.\<close>

definition ex_behind :: hazcat_state where
  "ex_behind =
     ex_empty\<lparr>hdr := (hdr ex_empty)\<lparr>index := 3\<rparr>,
              ref_bits := (\<lambda>_. zero_ref_bits)
                (0 := \<lparr>interest_count = 1, availability = 1, lock = 0\<rparr>,
                 1 := \<lparr>interest_count = 1, availability = 1, lock = 0\<rparr>,
                 2 := \<lparr>interest_count = 1, availability = 1, lock = 0\<rparr>),
              entries := (\<lambda>_. zero_entry)
                (0 := \<lparr>alloc_shmem_id = 7, offset = 160, len_e = 8\<rparr>,
                 1 := \<lparr>alloc_shmem_id = 7, offset = 168, len_e = 8\<rparr>,
                 2 := \<lparr>alloc_shmem_id = 7, offset = 176, len_e = 8\<rparr>)\<rparr>"

definition ex_slow_endpoint :: pub_sub_data_t where
  "ex_slow_endpoint = \<lparr>alloc = cpu_alloc, mq = Some ex_node, next_index = 0, array_num = 0,
                        depth = 2\<rparr>"

definition ex_behind_taken :: hazcat_state where
  "ex_behind_taken =
     ex_behind
       \<lparr>ref_bits := (ref_bits ex_behind)
                      (1 := \<lparr>interest_count = 0, availability = 1, lock = 0\<rparr>),
        calls := [SHARE cpu_alloc 168, DEALLOCATE cpu_alloc 168]\<rparr>"

text \<open>The queue \<open>ex_empty\<close> after the registration of a publisher of device 0, and after
  the unregistration of its first publisher.\<close>

definition ex_two_columns :: hazcat_state where
  "ex_two_columns =
     ex_empty\<lparr>hdr := (hdr ex_empty)\<lparr>num_domains := 2,
                                     domains := (domains (hdr ex_empty))(1 := 1),
                                     pub_count := 2\<rparr>,
              ht := (ht ex_empty)(9 \<mapsto> gpu0_alloc)\<rparr>"

definition ex_unregistered :: hazcat_state where
  "ex_unregistered =
     ex_empty\<lparr>hdr := (hdr ex_empty)\<lparr>pub_count := 0\<rparr>, ht := Map.empty\<rparr>"

text \<open>A queue of depth 70000 whose publisher is two messages ahead of a subscriber of depth
  4 that reads at slot 65535.\<close>

definition ex_long :: hazcat_state where
  "ex_long =
     \<lparr>hdr = \<lparr>index = 65537, len = 70000, num_domains = 1, domains = (\<lambda>_. 0),
              pub_count = 1, sub_count = 1\<rparr>,
      ref_bits = (\<lambda>_. zero_ref_bits)
        (65535 := \<lparr>interest_count = 1, availability = 1, lock = 0\<rparr>,
         65536 := \<lparr>interest_count = 1, availability = 1, lock = 0\<rparr>),
      entries = (\<lambda>_. zero_entry)
        (65535 := \<lparr>alloc_shmem_id = 7, offset = 160, len_e = 8\<rparr>,
         65536 := \<lparr>alloc_shmem_id = 7, offset = 168, len_e = 8\<rparr>),
      st_size = 2240160, linked = True, mapped = True, mq_list = Some ex_node,
      fl = F_UNLCK, ht = [7 \<mapsto> cpu_alloc], calls = []\<rparr>"

definition ex_long_endpoint :: pub_sub_data_t where
  "ex_long_endpoint = \<lparr>alloc = cpu_alloc, mq = Some ex_node, next_index = 65535,
                        array_num = 0, depth = 4\<rparr>"

definition ex_long_taken :: hazcat_state where
  "ex_long_taken =
     ex_long
       \<lparr>ref_bits := (ref_bits ex_long)
                      (65535 := \<lparr>interest_count = 0, availability = 1, lock = 0\<rparr>),
        calls := [SHARE cpu_alloc 160, DEALLOCATE cpu_alloc 160]\<rparr>"

text \<open>An endpoint of device 0 with depth 1 that is not registered yet, and the full queue
  after its registration as a publisher.\<close>

definition ex_gpu0_shallow :: pub_sub_data_t where
  "ex_gpu0_shallow = \<lparr>alloc = gpu0_alloc, mq = None, next_index = 0, array_num = 0,
                       depth = 1\<rparr>"

definition ex_full_cut :: hazcat_state where
  "ex_full_cut =
     ex_full
       \<lparr>hdr := \<lparr>index = 0, len = 4, num_domains = 2, domains = (\<lambda>_. 0)(1 := 1),
                 pub_count = 2, sub_count = 1\<rparr>,
        ref_bits := (\<lambda>_. zero_ref_bits)
          (0 := \<lparr>interest_count = 1, availability = 1, lock = 0\<rparr>,
           1 := \<lparr>interest_count = 1, availability = 1, lock = 0\<rparr>),
        entries := (\<lambda>_. zero_entry),
        st_size := 192,
        ht := [7 \<mapsto> cpu_alloc, 9 \<mapsto> gpu0_alloc]\<rparr>"

section \<open>Evaluation of the model\<close>

lemma lock_domain_eq [simp]: "lock_domain lck bit_mask = scast bit_mask AND lck"
  by (simp add: lock_domain_def lock_loop.simps atomic_compare_exchange_weak_def)

lemma reduce_index_eq [simp]: "reduce_index v v l = ucast ((scast v :: size_t) mod l)"
  by (simp add: reduce_index.simps atomic_compare_exchange_weak_def)

lemmas upt_numeral = upt_rec [of _ "numeral n" for n]

lemmas ex_defs = ex_env_def cpu_alloc_def gpu0_alloc_def gpu1_alloc_def ex_node_def ex_empty_def
  ex_cpu_endpoint_def ex_gpu0_new_def ex_three_def ex_gpu0_endpoint_def ex_three_published_def
  ex_three_taken_def ex_cpu_published_def ex_cpu_taken_def ex_full_def ex_full_published_def
  ex_fresh_def ex_behind_def ex_slow_endpoint_def ex_behind_taken_def ex_two_columns_def
  ex_unregistered_def ex_long_def ex_long_endpoint_def ex_long_taken_def ex_gpu0_shallow_def
  ex_full_cut_def zero_ref_bits_def
  zero_entry_def CPU_def

lemmas access_defs = has_copy_def row_ok_def row_def get_entry_def hashtable_get_def GET_PTR_def
  PTR_TO_OFFSET_def Let_def upt_numeral

lemmas take_defs = hazcat_take_def take_candidate_def take_fetch_def take_preferred_def
  take_copy_def take_release_def first_available_def null_ref_def access_defs

lemmas publish_only_defs = hazcat_publish_def atomic_fetch_add_def DOMAINS_PER_TOPIC_def

lemmas publish_defs = publish_only_defs access_defs

lemmas register_defs = hazcat_register_publisher_def hazcat_register_subscription_def
  hazcat_register_pub_or_sub_def open_queue_def fresh_queue_def find_domain_def relayout_def
  ref_bits_of_entry_def ftruncate_def cut_header_def
  hashtable_insert_def release_lock_def UINT16_MAX_def mq_size_def sizeof_message_queue_t_def
  sizeof_ref_bits_t_def sizeof_entry_t_def DOMAINS_PER_TOPIC_def Let_def upt_numeral

lemma ex_cpu_publish:
  "hazcat_publish ex_env ex_empty ex_cpu_endpoint (GET_PTR cpu_alloc 160) 8 =
     Inr (RMW_RET_OK, ex_cpu_published)"
  by (simp add: ex_defs publish_defs)

lemma ex_cpu_take:
  "hazcat_take ex_env ex_cpu_published ex_cpu_endpoint =
     Inr (\<lparr>ref_alloc = Some cpu_alloc, ref_msg = GET_PTR cpu_alloc 160\<rparr>,
          ex_cpu_taken, ex_cpu_endpoint\<lparr>next_index := 1\<rparr>)"
  by (simp add: ex_defs take_defs)

lemma ex_full_publish:
  "hazcat_publish ex_env ex_full ex_cpu_endpoint (GET_PTR cpu_alloc 192) 8 =
     Inr (RMW_RET_OK, ex_full_published)"
  by (simp add: ex_defs publish_defs)


lemma ex_behind_take:
  "hazcat_take ex_env ex_behind ex_slow_endpoint =
     Inr (\<lparr>ref_alloc = Some cpu_alloc, ref_msg = GET_PTR cpu_alloc 168\<rparr>,
          ex_behind_taken, ex_slow_endpoint\<lparr>next_index := 2\<rparr>)"
  by (simp add: ex_defs take_defs)

lemmas unregister_defs = hazcat_unregister_publisher_def hazcat_unregister_subscription_def
  destroy_if_unused_def release_lock_def hashtable_remove_def Let_def

lemma ex_register_publisher:
  "hazcat_register_publisher ex_env ex_empty ex_gpu0_new =
     Inr (RMW_RET_OK, ex_two_columns, ex_gpu0_new\<lparr>array_num := 1, mq := Some ex_node\<rparr>)"
  by (simp add: ex_defs register_defs)

lemma ex_unregister_publisher:
  "hazcat_unregister_publisher ex_env ex_empty ex_cpu_endpoint =
     Inr (RMW_RET_OK, ex_unregistered, ex_cpu_endpoint\<lparr>mq := None\<rparr>)"
  by (simp add: ex_defs unregister_defs)

section \<open>What the steps of a take and the release loop change\<close>

lemma hashtable_get_resolve:
  assumes "hashtable_get env h k = (r, h')"
  shows "r = resolve env h k" "resolve env h' = resolve env h"
proof -
  show "r = resolve env h k"
    using assms by (auto simp: hashtable_get_def resolve_def split: option.splits)
  show "resolve env h' = resolve env h"
  proof
    fix x
    show "resolve env h' x = resolve env h x"
      using assms
      by (cases "x = k") (auto simp: hashtable_get_def resolve_def split: option.splits)
  qed
qed

lemma copies_released_cong:
  "resolve env h' = resolve env h \<Longrightarrow>
   copies_released env h' q es av i ds = copies_released env h q es av i ds"
  by (simp add: copies_released_def dealloc_of_def)

lemma release_copies_calls:
  assumes "release_copies env q es av i ds h cs = Inr (h', cs')"
  shows "cs' = cs @ copies_released env h q es av i ds \<and> resolve env h' = resolve env h"
  using assms
proof (induction ds arbitrary: h cs)
  case Nil
  then show ?case by (simp add: copies_released_def)
next
  case (Cons d ds)
  show ?case
  proof (cases "has_copy av d")
    case False
    with Cons.prems have "release_copies env q es av i ds h cs = Inr (h', cs')"
      by (simp split: if_splits)
    from Cons.IH [OF this] False show ?thesis
      by (simp add: copies_released_def)
  next
    case True
    obtain r h1 where g: "hashtable_get env h (alloc_shmem_id (es (get_entry q d i))) = (r, h1)"
      by (cases "hashtable_get env h (alloc_shmem_id (es (get_entry q d i)))")
    from Cons.prems True g obtain a where
      r: "r = Some a" and
      rec: "release_copies env q es av i ds h1
              (cs @ [DEALLOCATE a (offset (es (get_entry q d i)))]) = Inr (h', cs')"
      by (auto simp: Let_def split: if_splits option.splits)
    from hashtable_get_resolve [OF g] r have
      res: "resolve env h (alloc_shmem_id (es (get_entry q d i))) = Some a"
      and inv: "resolve env h1 = resolve env h"
      by simp_all
    from Cons.IH [OF rec] have
      "cs' = (cs @ [DEALLOCATE a (offset (es (get_entry q d i)))])
               @ copies_released env h1 q es av i ds"
      and "resolve env h' = resolve env h1"
      by simp_all
    with True res inv copies_released_cong [OF inv] show ?thesis
      by (simp add: copies_released_def dealloc_of_def)
  qed
qed

lemma take_preferred_frame:
  assumes "take_preferred env st sub i = Inr (ret, st')"
  shows "hdr st' = hdr st" "ref_bits st' = ref_bits st" "entries st' = entries st"
    "ref_alloc ret \<noteq> None" "fl st' = fl st"
  using assms
  by (auto simp: take_preferred_def Let_def split: if_splits option.splits prod.splits)

lemma take_copy_frame:
  assumes "take_copy env st sub i = Inr (ret, st')"
  shows "hdr st' = hdr st"
    "\<And>r. r \<noteq> row i \<Longrightarrow> ref_bits st' r = ref_bits st r"
    "interest_count (ref_bits st' (row i)) = interest_count (ref_bits st (row i))"
    "\<And>c. c \<noteq> get_entry (hdr st) (unat (array_num sub)) (row i) \<Longrightarrow> entries st' c = entries st c"
    "ref_alloc ret \<noteq> None" "fl st' = fl st"
  using assms
  by (auto simp: take_copy_def Let_def split: if_splits option.splits prod.splits)

lemma take_fetch_frame:
  assumes "take_fetch env st sub i = Inr (ret, st')"
  shows "hdr st' = hdr st"
    "\<And>r. r \<noteq> row i \<Longrightarrow> ref_bits st' r = ref_bits st r"
    "interest_count (ref_bits st' (row i)) = interest_count (ref_bits st (row i))"
    "\<And>c. c \<noteq> get_entry (hdr st) (unat (array_num sub)) (row i) \<Longrightarrow> entries st' c = entries st c"
    "ref_alloc ret \<noteq> None" "fl st' = fl st"
  using assms take_preferred_frame [of env st sub i ret st'] take_copy_frame [of env st sub i ret st']
  by (auto simp: take_fetch_def split: if_splits)

lemma take_release_frame:
  assumes "take_release env st i = Inr st'"
  shows "hdr st' = hdr st" "entries st' = entries st"
    "\<And>r. r \<noteq> row i \<Longrightarrow> ref_bits st' r = ref_bits st r"
    "interest_count (ref_bits st' (row i)) = interest_count (ref_bits st (row i)) - 1"
    "availability (ref_bits st' (row i)) = availability (ref_bits st (row i))"
    "fl st' = fl st"
  using assms
  by (auto simp: take_release_def Let_def split: if_splits sum.splits prod.splits)

lemma hazcat_take_cases:
  assumes "hazcat_take env st sub = Inr (ret, st', sub')"
  obtains
    (no_lock) "\<not> fcntl_setlkw_ok env" "ret = null_ref" "st' = st" "sub' = sub"
  | (no_message) "fcntl_setlkw_ok env" "take_candidate (hdr st) sub = index (hdr st)"
      "ret = null_ref" "st' = st\<lparr>fl := F_RDLCK\<rparr>" "sub' = sub"
  | (message) st2 st3 where "fcntl_setlkw_ok env" "mapped st" "len (hdr st) \<noteq> 0"
      "take_candidate (hdr st) sub \<noteq> index (hdr st)"
      "row_ok (hdr st) (take_candidate (hdr st) sub)" "unat (array_num sub) < 32"
      "take_fetch env (st\<lparr>fl := F_RDLCK\<rparr>) sub (take_candidate (hdr st) sub) = Inr (ret, st2)"
      "take_release env st2 (take_candidate (hdr st) sub) = Inr st3"
      "st' = (if fcntl_setlk_ok env then st3\<lparr>fl := F_UNLCK\<rparr> else st3)"
      "sub' = sub\<lparr>next_index :=
                ucast ((scast (take_candidate (hdr st) sub + 1) :: 64 word) mod len (hdr st))\<rparr>"
  using assms
  by (auto simp: hazcat_take_def Let_def split: if_splits sum.splits prod.splits)

lemma get_entry_index [simp]: "get_entry (q\<lparr>index := x\<rparr>) = get_entry q"
  by (simp add: get_entry_def fun_eq_iff)

lemma row_ok_index [simp]: "row_ok (q\<lparr>index := x\<rparr>) = row_ok q"
  by (simp add: row_ok_def fun_eq_iff)

lemma release_copies_index [simp]:
  "release_copies env (q\<lparr>index := x\<rparr>) es av i ds h cs = release_copies env q es av i ds h cs"
  by (induction ds arbitrary: h cs) (simp_all add: Let_def split: prod.splits option.splits)

lemma hazcat_publish_cases:
  assumes "hazcat_publish env st pub msg l = Inr (r, st')"
  obtains
    (no_lock) "\<not> fcntl_setlkw_ok env" "r = RMW_RET_ERROR" "st' = st"
  | (published) h cs where "fcntl_setlkw_ok env" "mapped st" "len (hdr st) \<noteq> 0"
      "row_ok (hdr st) (index (hdr st))" "unat (array_num pub) < 32"
      "(if 0 < interest_count (ref_bits st (row (index (hdr st))))
        then release_copies env (hdr st) (entries st)
               (availability (ref_bits st (row (index (hdr st))))) (row (index (hdr st)))
               [0..<DOMAINS_PER_TOPIC] (ht st) (calls st)
        else Inr (ht st, calls st)) = Inr (h, cs)"
      "r = (if fcntl_setlk_ok env then RMW_RET_OK else RMW_RET_ERROR)"
      "st' = st\<lparr>hdr := (hdr st)\<lparr>index :=
                     ucast ((scast (index (hdr st) + 1) :: 64 word) mod len (hdr st))\<rparr>,
                ref_bits := (ref_bits st)
                  (row (index (hdr st)) :=
                     \<lparr>interest_count = ucast (sub_count (hdr st)),
                      availability = push_bit (unat (array_num pub)) 1,
                      lock = 0\<rparr>),
                entries := (entries st)
                  (get_entry (hdr st) (unat (array_num pub)) (row (index (hdr st))) :=
                     \<lparr>alloc_shmem_id = shmem_id (alloc pub),
                      offset = ucast (PTR_TO_OFFSET (alloc pub) msg),
                      len_e = l\<rparr>),
                fl := (if fcntl_setlk_ok env then F_UNLCK else F_RDLCK),
                ht := h, calls := cs\<rparr>"
  using assms
  by (cases "ref_bits st (row (index (hdr st)))")
     (auto simp: hazcat_publish_def atomic_fetch_add_def Let_def
        split: if_splits sum.splits prod.splits)

lemma release_copies_resolved:
  assumes "release_copies env q es av i ds h cs = Inr (h', cs')"
  shows "\<forall>d \<in> set ds. d < 32 \<and>
           (has_copy av d \<longrightarrow> resolve env h (alloc_shmem_id (es (get_entry q d i))) \<noteq> None)"
  using assms
proof (induction ds arbitrary: h cs)
  case Nil
  then show ?case by simp
next
  case (Cons d ds)
  show ?case
  proof (cases "has_copy av d")
    case False
    with Cons.prems have "release_copies env q es av i ds h cs = Inr (h', cs')" and "d < 32"
      by (simp_all split: if_splits)
    with Cons.IH False show ?thesis by auto
  next
    case True
    obtain r h1 where g: "hashtable_get env h (alloc_shmem_id (es (get_entry q d i))) = (r, h1)"
      by (cases "hashtable_get env h (alloc_shmem_id (es (get_entry q d i)))")
    from Cons.prems True g obtain a where
      r: "r = Some a" and d: "d < 32" and
      rec: "release_copies env q es av i ds h1
              (cs @ [DEALLOCATE a (offset (es (get_entry q d i)))]) = Inr (h', cs')"
      by (auto simp: Let_def split: if_splits option.splits)
    from hashtable_get_resolve [OF g] r have
      res: "resolve env h (alloc_shmem_id (es (get_entry q d i))) = Some a"
      and inv: "resolve env h1 = resolve env h"
      by simp_all
    from Cons.IH [OF rec] inv d res show ?thesis by auto
  qed
qed


section \<open>Arithmetic of the slot indices\<close>

text \<open>A word that holds a natural number is \<open>of_nat\<close> of it; the conversions and the
  remainder of the C expressions are then computed on the numbers.\<close>

lemma w64_mod: "a < 2 ^ 64 \<Longrightarrow> b < 2 ^ 64 \<Longrightarrow> (of_nat a :: 64 word) mod of_nat b = of_nat (a mod b)"
  by (simp add: word_arith_nat_mod unat_of_nat)

lemma w64_less: "a < 2 ^ 64 \<Longrightarrow> b < 2 ^ 64 \<Longrightarrow> ((of_nat a :: 64 word) < of_nat b) = (a < b)"
  by (simp add: word_less_nat_alt unat_of_nat)

lemma w32_eq: "a < 2 ^ 32 \<Longrightarrow> b < 2 ^ 32 \<Longrightarrow> ((of_nat a :: 32 word) = of_nat b) = (a = b)"
  by (simp add: word_of_nat_eq_iff take_bit_nat_eq_self)

lemma sint_w32: "k < 2 ^ 31 \<Longrightarrow> sint (of_nat k :: 32 word) = int k"
  by (simp add: signed_of_nat signed_take_bit_int_eq_self)

lemma scast_w32: "k < 2 ^ 31 \<Longrightarrow> (scast (of_nat k :: 32 word) :: 64 word) = of_nat k"
  by (simp add: scast_eq sint_w32)

lemma ucast_64_32: "(ucast (of_nat k :: 64 word) :: 32 word) = of_nat k"
  by (simp add: unsigned_of_nat word_of_nat_eq_iff)

lemma ucast_64_16: "(ucast (of_nat k :: 64 word) :: 16 word) = of_nat k"
  by (simp add: unsigned_of_nat word_of_nat_eq_iff)

lemma ucast_16_32: "(ucast (w :: 16 word) :: 32 word) = of_nat (unat w)"
  by simp

lemma unat_w16: "k < 2 ^ 16 \<Longrightarrow> unat (of_nat k :: 16 word) = k"
  by (simp add: unat_of_nat)

lemma w32_nonneg: "0 \<le> sint (x :: 32 word) \<Longrightarrow> x = of_nat (nat (sint x))"
  by simp

lemma w32_nonneg_lt: "0 \<le> sint (x :: 32 word) \<Longrightarrow> nat (sint x) < 2 ^ 31"
  using sint_lt [of x] by simp

text \<open>\<open>(i + 1) % len\<close> for a row index \<open>i\<close> and a length that fits an \<^verbatim>\<open>int\<close>.\<close>

lemma next_slot:
  fixes i :: "32 word" and L :: "64 word"
  assumes "0 \<le> sint i" and "nat (sint i) < unat L" and "unat L < 2 ^ 31"
  shows "(scast (i + 1) :: 64 word) mod L = of_nat ((nat (sint i) + 1) mod unat L)"
proof -
  define k where "k = nat (sint i)"
  define n where "n = unat L"
  have i: "i = of_nat k" using assms(1) by (simp add: k_def)
  have L: "L = of_nat n" by (simp add: n_def)
  have kn: "k < n" "n < 2 ^ 31" using assms by (simp_all add: k_def n_def)
  then have k1: "Suc k < 2 ^ 31" by simp
  have "i + 1 = of_nat (Suc k)" by (simp add: i)
  then have "(scast (i + 1) :: 64 word) = of_nat (Suc k)"
    by (simp only: scast_w32 [OF k1])
  moreover have "(of_nat (Suc k) :: 64 word) mod of_nat n = of_nat (Suc k mod n)"
    using kn k1 by (intro w64_mod) simp_all
  ultimately have "(scast (i + 1) :: 64 word) mod L = of_nat (Suc k mod n)"
    by (simp only: L)
  then show ?thesis by (simp add: k_def n_def)
qed

lemma next_slot_sint:
  fixes i :: "32 word" and L :: "64 word"
  assumes "0 \<le> sint i" and "nat (sint i) < unat L" and "unat L < 2 ^ 31"
  shows "sint (ucast ((scast (i + 1) :: 64 word) mod L) :: 32 word)
           = (sint i + 1) mod int (unat L)"
proof -
  have "0 < unat L" using assms(2) by simp
  then have "(nat (sint i) + 1) mod unat L < unat L" by simp
  with assms(3) have lt: "(nat (sint i) + 1) mod unat L < 2 ^ 31" by simp
  have "sint (ucast ((scast (i + 1) :: 64 word) mod L) :: 32 word)
          = int ((nat (sint i) + 1) mod unat L)"
    by (simp only: next_slot [OF assms] ucast_64_32 sint_w32 [OF lt])
  also have "\<dots> = (sint i + 1) mod int (unat L)"
    using assms(1) by (simp add: zmod_int add.commute)
  finally show ?thesis .
qed

section \<open>The rows under registration, unregistration and release\<close>

lemma len_fresh_queue: "len (fresh_queue d) = scast (depth d)"
  by (simp add: fresh_queue_def Let_def)

lemma open_queue_rows:
  assumes "open_queue env st d = (r, st1)"
  shows "(ref_bits st1 = ref_bits st
          \<and> (r = RMW_RET_OK \<longrightarrow> hdr st1 = hdr st \<and> st_size st1 = st_size st))
       \<or> (mq_list st = None \<and> (\<not> linked st \<or> st_size st = 0)
          \<and> ref_bits st1 = (\<lambda>_. zero_ref_bits) \<and> hdr st1 = fresh_queue d)"
  using assms
  by (auto simp: open_queue_def Let_def split: option.splits if_splits)

lemma ftruncate_rows:
  "ref_bits (ftruncate s st) j = ref_bits st j
   \<or> (ref_bits (ftruncate s st) j = zero_ref_bits \<and> s < st_size st \<and> unat s \<le> 160 + 16 * j)"
  by (simp add: ftruncate_def sizeof_message_queue_t_def sizeof_ref_bits_t_def)

lemma ftruncate_size: "st_size (ftruncate s st) = s"
  by (simp add: ftruncate_def)

lemma register_pub_or_sub_ref_bits:
  assumes "hazcat_register_pub_or_sub env st d = Inr (r, st', d')"
    and j: "j < unat (len (hdr st))"
  shows "row_kept_or_cut st st' j"
proof -
  let ?st0 = "st\<lparr>ht := hashtable_insert (ht st) (shmem_id (alloc d)) (alloc d)\<rparr>"
  obtain r1 st1 where o: "open_queue env ?st0 d = (r1, st1)"
    by (cases "open_queue env ?st0 d")
  from open_queue_rows [OF o] show ?thesis
  proof
    assume same: "ref_bits st1 = ref_bits ?st0
                  \<and> (r1 = RMW_RET_OK \<longrightarrow> hdr st1 = hdr ?st0 \<and> st_size st1 = st_size ?st0)"
    show ?thesis
    proof (cases "r1 = RMW_RET_OK")
      case False
      with assms o same have "ref_bits st' = ref_bits st"
        by (auto simp: hazcat_register_pub_or_sub_def Let_def)
      then show ?thesis by (simp add: row_kept_or_cut_def)
    next
      case True
      with same have h: "hdr st1 = hdr st" and z: "st_size st1 = st_size st"
        and b: "ref_bits st1 = ref_bits st" by simp_all
      from assms(1) o True h z b j show ?thesis
        by (auto simp: row_kept_or_cut_def hazcat_register_pub_or_sub_def relayout_def
            ftruncate_def sizeof_message_queue_t_def sizeof_ref_bits_t_def Let_def
            split: if_splits prod.splits)
    qed
  next
    assume created: "mq_list ?st0 = None \<and> (\<not> linked ?st0 \<or> st_size ?st0 = 0)
                     \<and> ref_bits st1 = (\<lambda>_. zero_ref_bits) \<and> hdr st1 = fresh_queue d"
    with assms(1) o have "ref_bits st' j = zero_ref_bits"
      by (auto simp: hazcat_register_pub_or_sub_def len_fresh_queue Let_def ftruncate_def
          split: if_splits prod.splits)
    with created show ?thesis by (simp add: row_kept_or_cut_def)
  qed
qed

lemma release_lock_ref_bits:
  "release_lock env st d = Inr (r, st', d') \<Longrightarrow> ref_bits st' = ref_bits st"
  by (auto simp: release_lock_def split: if_splits)

lemma register_publisher_ref_bits:
  assumes "hazcat_register_publisher env st d = Inr (r, st', d')"
    and j: "j < unat (len (hdr st))"
  shows "row_kept_or_cut st st' j"
proof -
  from assms obtain r1 st1 d1 where
    p: "hazcat_register_pub_or_sub env st d = Inr (r1, st1, d1)"
    and "ref_bits st' = ref_bits st1" and "st_size st' = st_size st1"
    by (auto simp: hazcat_register_publisher_def release_lock_def split: sum.splits if_splits)
  with register_pub_or_sub_ref_bits [OF p j] show ?thesis by (simp add: row_kept_or_cut_def)
qed

lemma register_subscription_ref_bits:
  assumes "hazcat_register_subscription env st d = Inr (r, st', d')"
    and j: "j < unat (len (hdr st))"
  shows "row_kept_or_cut st st' j"
proof -
  from assms obtain r1 st1 d1 where
    p: "hazcat_register_pub_or_sub env st d = Inr (r1, st1, d1)"
    and "ref_bits st' = ref_bits st1" and "st_size st' = st_size st1"
    by (auto simp: hazcat_register_subscription_def release_lock_def Let_def
        split: sum.splits if_splits)
  with register_pub_or_sub_ref_bits [OF p j] show ?thesis by (simp add: row_kept_or_cut_def)
qed

lemma destroy_if_unused_ref_bits:
  "destroy_if_unused env st d = Inr (r, st', d') \<Longrightarrow> ref_bits st' = ref_bits st"
  by (auto simp: destroy_if_unused_def Let_def split: if_splits dest: release_lock_ref_bits)

lemma unregister_publisher_ref_bits:
  "hazcat_unregister_publisher env st d = Inr (r, st', d') \<Longrightarrow> ref_bits st' = ref_bits st"
  by (auto simp: hazcat_unregister_publisher_def Let_def split: option.splits if_splits
      dest: destroy_if_unused_ref_bits)

lemma unregister_subscription_ref_bits:
  "hazcat_unregister_subscription env st d = Inr (r, st', d') \<Longrightarrow> ref_bits st' = ref_bits st"
  by (auto simp: hazcat_unregister_subscription_def Let_def split: option.splits if_splits
      dest: destroy_if_unused_ref_bits)

lemma take_fetch_calls:
  assumes "take_fetch env st sub i = Inr (ret, st')"
  shows "\<exists>pre. calls st' = calls st @ pre" "resolve env (ht st') = resolve env (ht st)"
proof -
  show "\<exists>pre. calls st' = calls st @ pre"
    using assms
    by (auto simp: take_fetch_def take_preferred_def take_copy_def Let_def
        split: if_splits option.splits prod.splits)
  show "resolve env (ht st') = resolve env (ht st)"
    using assms
    by (auto simp: take_fetch_def take_preferred_def take_copy_def Let_def
        split: if_splits option.splits prod.splits dest: hashtable_get_resolve(2))
qed

lemma take_release_calls:
  assumes "take_release env st i = Inr st'"
    and "interest_count (ref_bits st' (row i)) = 0"
  shows "calls st' = calls st @
           copies_released env (ht st) (hdr st) (entries st') (availability (ref_bits st' (row i)))
             (row i) [0..<unat (num_domains (hdr st))]"
proof -
  let ?rb = "(ref_bits st (row i))\<lparr>interest_count := interest_count (ref_bits st (row i)) - 1\<rparr>"
  from take_release_frame [OF assms(1)] assms(2) have z: "interest_count ?rb = 0"
    by simp
  with assms(1) obtain h cs where
    rel: "release_copies env (hdr st) (entries st) (availability ?rb) (row i)
            [0..<unat (num_domains (hdr st))] (ht st) (calls st) = Inr (h, cs)"
    and st': "st' = st\<lparr>ref_bits := (ref_bits st)(row i := ?rb), ht := h, calls := cs\<rparr>"
    by (auto simp: take_release_def Let_def split: sum.splits prod.splits)
  from release_copies_calls [OF rel] st' show ?thesis by simp
qed

lemma take_release_resolved:
  assumes "take_release env st i = Inr st'"
    and "interest_count (ref_bits st' (row i)) = 0"
  shows "\<forall>d < unat (num_domains (hdr st)).
           has_copy (availability (ref_bits st' (row i))) d \<longrightarrow>
           resolve env (ht st) (alloc_shmem_id (entries st' (get_entry (hdr st) d (row i)))) \<noteq> None"
proof -
  let ?rb = "(ref_bits st (row i))\<lparr>interest_count := interest_count (ref_bits st (row i)) - 1\<rparr>"
  from take_release_frame [OF assms(1)] assms(2) have z: "interest_count ?rb = 0"
    by simp
  with assms(1) obtain h cs where
    rel: "release_copies env (hdr st) (entries st) (availability ?rb) (row i)
            [0..<unat (num_domains (hdr st))] (ht st) (calls st) = Inr (h, cs)"
    and st': "st' = st\<lparr>ref_bits := (ref_bits st)(row i := ?rb), ht := h, calls := cs\<rparr>"
    by (auto simp: take_release_def Let_def split: sum.splits prod.splits)
  from release_copies_resolved [OF rel] st' show ?thesis by simp
qed

lemma hazcat_take_rows:
  assumes "hazcat_take env st sub = Inr (ret, st', sub')"
  shows "\<forall>j. j \<noteq> row (take_candidate (hdr st) sub) \<longrightarrow> ref_bits st' j = ref_bits st j"
  using assms
proof (cases rule: hazcat_take_cases)
  case (message st2 st3)
  from take_fetch_frame(2) [OF message(7)] take_release_frame(3) [OF message(8)] message(9)
  show ?thesis by (simp split: if_splits)
qed simp_all


section \<open>The creation of a queue\<close>

lemma find_domain_fresh:
  "find_domain (domain (alloc data)) (fresh_queue data) =
     (if domain (alloc data) = CPU then 0 else 1)"
  by (simp add: find_domain_def fresh_queue_def Let_def DOMAINS_PER_TOPIC_def upt_numeral)

lemma open_queue_fresh:
  assumes "mq_list st = None" and "\<not> linked st \<or> st_size st = 0"
    and "shm_open_ret env \<noteq> - 1" and "fcntl_setlkw_ok env" and "ftruncate_ok env"
    and "mmap_ok env"
  shows "open_queue env st data =
           (RMW_RET_OK,
            st\<lparr>hdr := fresh_queue data, ref_bits := (\<lambda>_. zero_ref_bits),
               entries := (\<lambda>_. zero_entry), st_size := mq_size (depth data),
               linked := True, mapped := True,
               mq_list := Some \<lparr>fd = shm_open_ret env\<rparr>, fl := F_WRLCK\<rparr>)"
  using assms
  by (cases st) (auto simp: open_queue_def Let_def)


section \<open>The candidate slot of a take\<close>

lemma keep_last_after_take:
  fixes idx n ni dep :: int
  assumes n: "0 < n" and idx: "0 \<le> idx" "idx < n" and ni: "0 \<le> ni" "ni < n" and dep: "0 \<le> dep"
    and c: "keep_last_slot idx n ni dep \<noteq> idx"
  shows "skew idx n ((keep_last_slot idx n ni dep + 1) mod n) \<le> dep"
proof -
  let ?c = "keep_last_slot idx n ni dep"
  have e: "skew idx n ((?c + 1) mod n) = (idx - ?c - 1) mod n"
  proof -
    have "(idx + n - (?c + 1) mod n) mod n = (idx + n - (?c + 1)) mod n"
      by (simp add: mod_diff_right_eq)
    also have "\<dots> = (idx - ?c - 1 + n) mod n"
      by (simp add: algebra_simps)
    also have "\<dots> = (idx - ?c - 1) mod n"
      by simp
    finally show ?thesis by (simp add: skew_def)
  qed
  show ?thesis
  proof (cases "skew idx n ni \<le> dep")
    case True
    then have cn: "?c = ni" by (simp add: keep_last_slot_def)
    with c have ne: "ni \<noteq> idx" by simp
    show ?thesis
    proof (cases "ni < idx")
      case True
      then have "(idx - ni - 1) mod n = idx - ni - 1"
        using idx ni by (intro mod_pos_pos_trivial) simp_all
      moreover have "skew idx n ni = idx - ni"
      proof -
        have "(idx + n - ni) mod n = (idx - ni + n) mod n" by (simp add: algebra_simps)
        also have "\<dots> = (idx - ni) mod n" by simp
        also have "\<dots> = idx - ni" using True idx ni by (intro mod_pos_pos_trivial) simp_all
        finally show ?thesis by (simp add: skew_def)
      qed
      ultimately show ?thesis using \<open>skew idx n ni \<le> dep\<close> e cn by simp
    next
      case False
      with ne have gt: "idx < ni" by simp
      have "(idx - ni - 1) mod n = (idx - ni - 1 + n) mod n" by simp
      also have "\<dots> = idx - ni - 1 + n"
        using gt idx ni by (intro mod_pos_pos_trivial) simp_all
      finally have a: "(idx - ni - 1) mod n = idx - ni - 1 + n" .
      have "skew idx n ni = idx + n - ni"
        unfolding skew_def using gt idx ni by (intro mod_pos_pos_trivial) simp_all
      with a \<open>skew idx n ni \<le> dep\<close> e cn show ?thesis by simp
    qed
  next
    case False
    then have cn: "?c = (idx + n - dep) mod n" by (simp add: keep_last_slot_def)
    have "skew idx n ni < n" unfolding skew_def using n by simp
    with False have dn: "dep < n" by simp
    have d0: "dep \<noteq> 0"
    proof
      assume "dep = 0"
      with cn have "?c = (idx + n) mod n" by simp
      also have "\<dots> = idx mod n" by simp
      also have "\<dots> = idx" using idx by (intro mod_pos_pos_trivial) simp_all
      finally show False using c by simp
    qed
    have "(idx - ?c - 1) mod n = (idx - 1 - (idx + n - dep) mod n) mod n"
      by (simp add: cn algebra_simps)
    also have "\<dots> = (idx - 1 - (idx + n - dep)) mod n"
      by (simp add: mod_diff_right_eq)
    also have "\<dots> = (dep - 1 - n) mod n"
      by (simp add: algebra_simps)
    also have "\<dots> = (dep - 1) mod n"
      by (metis mod_diff_right_eq mod_self diff_zero)
    also have "\<dots> = dep - 1"
      using dep d0 dn by (intro mod_pos_pos_trivial) simp_all
    finally show ?thesis using e by simp
  qed
qed

lemma take_candidate_of_nat:
  assumes i0: "0 \<le> sint (index q)" and i1: "nat (sint (index q)) < unat (len q)"
    and l: "unat (len q) \<le> 65536" and ni: "unat (next_index sub) < unat (len q)"
    and d: "0 \<le> sint (depth sub)"
  shows "take_candidate q sub =
           of_nat (if nat (sint (depth sub))
                      < (nat (sint (index q)) + unat (len q) - unat (next_index sub)) mod unat (len q)
                   then (nat (sint (index q)) + unat (len q) - nat (sint (depth sub))) mod unat (len q)
                   else unat (next_index sub))"
proof -
  define idx where "idx = nat (sint (index q))"
  define n where "n = unat (len q)"
  define k where "k = unat (next_index sub)"
  define h where "h = nat (sint (depth sub))"
  have bounds: "idx < n" "k < n" "n \<le> 65536"
    using i1 ni l by (simp_all add: idx_def n_def k_def)
  have hb: "h < 2 ^ 31" using w32_nonneg_lt [OF d] by (simp add: h_def)
  have n64: "n < 2 ^ 64" "idx < 2 ^ 31" "k < 2 ^ 31" using bounds by simp_all
  have eq_index: "(scast (index q) :: 64 word) = of_nat idx"
    using scast_w32 [OF n64(2)] w32_nonneg [OF i0] by (simp add: idx_def)
  have eq_len: "len q = of_nat n" by (simp add: n_def)
  have eq_i: "(ucast (next_index sub) :: 32 word) = of_nat k"
    by (simp add: k_def)
  have eq_si: "(scast (of_nat k :: 32 word) :: 64 word) = of_nat k"
    by (rule scast_w32 [OF n64(3)])
  have eq_h: "(scast (depth sub) :: 64 word) = of_nat h"
    using scast_w32 [OF hb] w32_nonneg [OF d] by (simp add: h_def)
  have sk: "((of_nat idx :: 64 word) + of_nat n - of_nat k) mod of_nat n
              = of_nat ((idx + n - k) mod n)"
  proof -
    have "k \<le> idx + n" using bounds by simp
    then have "(of_nat idx :: 64 word) + of_nat n - of_nat k = of_nat (idx + n - k)"
      by simp
    moreover have "idx + n - k < 2 ^ 64" using bounds by simp
    ultimately show ?thesis using w64_mod [of "idx + n - k" n] n64(1) by simp
  qed
  have m: "(idx + n - k) mod n < 2 ^ 64" "h < 2 ^ 64"
    using bounds hb by (simp_all add: less_trans [OF mod_less_divisor])
  have cmp: "((of_nat h :: 64 word) < of_nat ((idx + n - k) mod n)) = (h < (idx + n - k) mod n)"
    by (rule w64_less [OF m(2) m(1)])
  have br: "h < (idx + n - k) mod n \<Longrightarrow>
              ((of_nat idx :: 64 word) + of_nat n - of_nat h) mod of_nat n
                = of_nat ((idx + n - h) mod n)"
  proof -
    assume "h < (idx + n - k) mod n"
    moreover have "(idx + n - k) mod n < n" using bounds by simp
    ultimately have "h \<le> idx + n" by simp
    then have "(of_nat idx :: 64 word) + of_nat n - of_nat h = of_nat (idx + n - h)"
      by simp
    moreover have "idx + n - h < 2 ^ 64" using bounds by simp
    ultimately show ?thesis using w64_mod [of "idx + n - h" n] n64(1) by simp
  qed
  have "take_candidate q sub =
          of_nat (if h < (idx + n - k) mod n then (idx + n - h) mod n else k)"
    unfolding take_candidate_def Let_def eq_i eq_si eq_index eq_h eq_len
    using sk cmp br by (simp add: ucast_64_32)
  then show ?thesis
    by (simp only: idx_def n_def k_def h_def)
qed

lemma take_candidate_sint:
  assumes i0: "0 \<le> sint (index q)" and i1: "nat (sint (index q)) < unat (len q)"
    and l: "unat (len q) \<le> 65536" and ni: "unat (next_index sub) < unat (len q)"
    and d: "0 \<le> sint (depth sub)"
  shows "sint (take_candidate q sub) =
           keep_last_slot (sint (index q)) (uint (len q)) (uint (next_index sub)) (sint (depth sub))"
    and "0 \<le> sint (take_candidate q sub)"
    and "nat (sint (take_candidate q sub)) < unat (len q)"
proof -
  define idx where "idx = nat (sint (index q))"
  define n where "n = unat (len q)"
  define k where "k = unat (next_index sub)"
  define h where "h = nat (sint (depth sub))"
  define c where "c = (if h < (idx + n - k) mod n then (idx + n - h) mod n else k)"
  have bounds: "idx < n" "k < n" "n \<le> 65536"
    using i1 ni l by (simp_all add: idx_def n_def k_def)
  have cand: "take_candidate q sub = of_nat c"
    using take_candidate_of_nat [OF assms] by (simp add: c_def idx_def n_def k_def h_def)
  have cn: "c < n" using bounds by (simp add: c_def)
  then have c31: "c < 2 ^ 31" using bounds by simp
  have s: "sint (take_candidate q sub) = int c"
    by (simp only: cand sint_w32 [OF c31])
  then show "0 \<le> sint (take_candidate q sub)" by simp
  from s cn show "nat (sint (take_candidate q sub)) < unat (len q)" by (simp add: n_def)
  have ints: "sint (index q) = int idx" "uint (len q) = int n" "uint (next_index sub) = int k"
    "sint (depth sub) = int h"
    using i0 d by (simp_all add: idx_def n_def k_def h_def)
  have sk: "skew (int idx) (int n) (int k) = int ((idx + n - k) mod n)"
  proof -
    have "k \<le> idx + n" using bounds by simp
    then show ?thesis by (simp add: skew_def zmod_int)
  qed
  have "int c = keep_last_slot (int idx) (int n) (int k) (int h)"
  proof (cases "h < (idx + n - k) mod n")
    case True
    moreover have "(idx + n - k) mod n < n" using bounds by simp
    ultimately have "h \<le> idx + n" by simp
    then have "(int idx + int n - int h) mod int n = int ((idx + n - h) mod n)"
      by (simp add: zmod_int)
    with True sk show ?thesis by (simp add: keep_last_slot_def c_def)
  next
    case False
    with sk show ?thesis by (simp add: keep_last_slot_def c_def)
  qed
  with s ints show "sint (take_candidate q sub) =
           keep_last_slot (sint (index q)) (uint (len q)) (uint (next_index sub)) (sint (depth sub))"
    by simp
qed


section \<open>The candidate slot and keep-last\<close>

text \<open>
  On a queue that satisfies its invariants (\<open>0 \<le> index < len\<close>, \<open>next_index < len\<close>), with
  \<open>len\<close> at most 65536, the range of the subscriber's \<^verbatim>\<open>uint16_t next_index\<close>, and a depth
  that is not negative, the candidate slot of \<^verbatim>\<open>hazcat_take\<close> is \<open>next_index\<close> when
  \<open>(index + len - next_index) mod len \<le> depth\<close> and \<open>(index + len - depth) mod len\<close> otherwise.
  After a take that returns a message the subscriber's \<open>next_index\<close> is \<open>(i + 1) mod len\<close> for
  that candidate \<open>i\<close>, and \<open>(index + len - next_index) mod len \<le> depth\<close> holds.
\<close>

lemma take_keep_last:
  assumes t: "hazcat_take env st sub = Inr (ret, st', sub')" and m: "ref_alloc ret \<noteq> None"
    and i0: "0 \<le> sint (index (hdr st))"
    and i1: "nat (sint (index (hdr st))) < unat (len (hdr st))"
    and l: "unat (len (hdr st)) \<le> 65536"
    and ni: "unat (next_index sub) < unat (len (hdr st))"
    and d: "0 \<le> sint (depth sub)"
  shows "sint (take_candidate (hdr st) sub) =
           keep_last_slot (sint (index (hdr st))) (uint (len (hdr st))) (uint (next_index sub))
             (sint (depth sub))
       \<and> uint (next_index sub') = (sint (take_candidate (hdr st) sub) + 1) mod uint (len (hdr st))
       \<and> skew (sint (index (hdr st'))) (uint (len (hdr st'))) (uint (next_index sub'))
           \<le> sint (depth sub')"
proof -
  let ?q = "hdr st"
  let ?i = "take_candidate ?q sub"
  note c = take_candidate_sint [OF i0 i1 l ni d]
  from t m obtain st2 st3 where
    ne: "?i \<noteq> index ?q"
    and f: "take_fetch env (st\<lparr>fl := F_RDLCK\<rparr>) sub ?i = Inr (ret, st2)"
    and r: "take_release env st2 ?i = Inr st3"
    and st': "st' = (if fcntl_setlk_ok env then st3\<lparr>fl := F_UNLCK\<rparr> else st3)"
    and sub': "sub' = sub\<lparr>next_index := ucast ((scast (?i + 1) :: 64 word) mod len ?q)\<rparr>"
    by (cases rule: hazcat_take_cases) (simp_all add: null_ref_def)
  have hdr': "hdr st' = hdr st"
    using take_fetch_frame(1) [OF f] take_release_frame(1) [OF r] st'
    by (simp split: if_splits)
  have l31: "unat (len ?q) < 2 ^ 31" using l by simp
  have lpos: "0 < unat (len ?q)" using i1 by simp
  have nx: "uint (next_index sub') = (sint ?i + 1) mod uint (len ?q)"
  proof -
    have lt: "(nat (sint ?i) + 1) mod unat (len ?q) < 2 ^ 16"
      using l lpos by (simp add: less_le_trans [OF mod_less_divisor])
    have "next_index sub' = ucast ((scast (?i + 1) :: 64 word) mod len ?q)"
      by (simp add: sub')
    also have "\<dots> = of_nat ((nat (sint ?i) + 1) mod unat (len ?q))"
      by (simp only: next_slot [OF c(2) c(3) l31] ucast_64_16)
    finally have "next_index sub' = of_nat ((nat (sint ?i) + 1) mod unat (len ?q))" .
    then have "unat (next_index sub') = (nat (sint ?i) + 1) mod unat (len ?q)"
      using unat_w16 [OF lt] by simp
    then have "uint (next_index sub') = int ((nat (sint ?i) + 1) mod unat (len ?q))"
      by (simp only: uint_nat)
    also have "\<dots> = (sint ?i + 1) mod uint (len ?q)"
      using c(2) by (simp add: zmod_int add.commute)
    finally show ?thesis .
  qed
  have sne: "sint ?i \<noteq> sint (index ?q)" using ne by (auto dest: signed_word_eqI)
  have "skew (sint (index ?q)) (uint (len ?q))
          ((keep_last_slot (sint (index ?q)) (uint (len ?q)) (uint (next_index sub))
              (sint (depth sub)) + 1) mod uint (len ?q))
        \<le> sint (depth sub)"
  proof (rule keep_last_after_take)
    have ul: "uint (len ?q) = int (unat (len ?q))" by (rule uint_nat)
    have un: "uint (next_index sub) = int (unat (next_index sub))" by (rule uint_nat)
    show "0 < uint (len ?q)" using lpos ul by linarith
    show "0 \<le> sint (index ?q)" by (rule i0)
    show "sint (index ?q) < uint (len ?q)" using i0 i1 ul by linarith
    show "0 \<le> uint (next_index sub)" by simp
    show "uint (next_index sub) < uint (len ?q)" using ni ul un by linarith
    show "0 \<le> sint (depth sub)" by (rule d)
    show "keep_last_slot (sint (index ?q)) (uint (len ?q)) (uint (next_index sub))
            (sint (depth sub)) \<noteq> sint (index ?q)"
      using sne c(1) by simp
  qed
  then have "skew (sint (index ?q)) (uint (len ?q)) (uint (next_index sub')) \<le> sint (depth sub)"
    by (simp only: c(1) [symmetric] nx [symmetric])
  moreover have "depth sub' = depth sub" by (simp add: sub')
  ultimately show ?thesis using c(1) nx hdr' by simp
qed

lemma take_keep_last_witness:
  "hazcat_take ex_env ex_behind ex_slow_endpoint =
     Inr (\<lparr>ref_alloc = Some cpu_alloc, ref_msg = GET_PTR cpu_alloc 168\<rparr>,
          ex_behind_taken, ex_slow_endpoint\<lparr>next_index := 2\<rparr>)
   \<and> sint (index (hdr ex_behind)) = 3 \<and> uint (len (hdr ex_behind)) = 4
   \<and> uint (next_index ex_slow_endpoint) = 0 \<and> sint (depth ex_slow_endpoint) = 2
   \<and> skew 3 4 0 = 3
   \<and> sint (take_candidate (hdr ex_behind) ex_slow_endpoint) = 1
   \<and> keep_last_slot 3 4 0 2 = 1
   \<and> skew 3 4 2 = 1"
  using take_keep_last [OF ex_behind_take] ex_behind_take
  by (simp add: ex_defs skew_def keep_last_slot_def take_candidate_def)

text \<open>
  C1. After a take that returns a message from slot \<open>i\<close> the subscriber's \<open>next_index\<close> is to
  be \<open>(i + 1) mod len\<close>, so that \<open>(index + len - next_index) mod len \<le> depth\<close>. Line 463
  computes \<open>(i + 1) % mq->len\<close> and stores it in \<^verbatim>\<open>next_index\<close>, a \<^verbatim>\<open>uint16_t\<close> whose comment reads
  \<^verbatim>\<open>Next index in message queue to read\<close>, while \<open>len\<close> is a \<^verbatim>\<open>size_t\<close> set from an \<^verbatim>\<open>int\<close> depth that no
  line bounds (the 16-bit \<open>pub_count\<close> and \<open>sub_count\<close> are checked against
  \<^verbatim>\<open>UINT16_MAX\<close>). On the queue \<open>ex_long\<close> of 70000 slots, with \<open>index = 65537\<close>, a subscriber of
  depth 4 with \<open>next_index = 65535\<close> takes slot 65535, the slot the claim names; the value
  \<open>(65535 + 1) mod 70000 = 65536\<close> is stored as its low 16 bits, 0, and the subscriber is
  then 65537 slots behind the publisher, more than its depth.
\<close>

theorem take_next_index_truncated:
  "hazcat_take ex_env ex_long ex_long_endpoint =
     Inr (\<lparr>ref_alloc = Some cpu_alloc, ref_msg = GET_PTR cpu_alloc 160\<rparr>,
          ex_long_taken, ex_long_endpoint\<lparr>next_index := 0\<rparr>)
   \<and> sint (index (hdr ex_long)) = 65537 \<and> uint (len (hdr ex_long)) = 70000
   \<and> uint (next_index ex_long_endpoint) = 65535 \<and> sint (depth ex_long_endpoint) = 4
   \<and> sint (take_candidate (hdr ex_long) ex_long_endpoint) = 65535
   \<and> keep_last_slot 65537 70000 65535 4 = 65535
   \<and> (65535 + 1) mod 70000 = (65536 :: int)
   \<and> uint (next_index (ex_long_endpoint\<lparr>next_index := 0\<rparr>)) = 0
   \<and> hdr ex_long_taken = hdr ex_long
   \<and> skew 65537 70000 0 = 65537
   \<and> \<not> skew 65537 70000 0 \<le> sint (depth ex_long_endpoint)"
  by (simp add: ex_defs take_defs skew_def keep_last_slot_def)

section \<open>Take in the subscriber's own domain\<close>

text \<open>
  C2. A take whose subscriber finds the bit of its column \<open>d = array_num\<close> set in the row's
  availability is to read \<open>entry[d][i]\<close>, share it and return the offset the publisher
  stored. Line 393 addresses the cell with \<^verbatim>\<open>alloc->domain\<close>, the domain id, where line 439
  and \<^verbatim>\<open>hazcat_publish\<close> use \<^verbatim>\<open>array_num\<close>. In the queue \<open>ex_three\<close> an endpoint of device
  0 (domain id 1) owns column 2. It publishes offset 128 of its allocator, which is stored in
  \<open>entry[2][0]\<close>; its take of that row reads \<open>entry[1][0]\<close> instead and returns offset 640 of
  the allocator of device 1, while the message itself is deallocated.
\<close>

theorem take_preferred_reads_domain_id_column:
  "hazcat_publish ex_env ex_three ex_gpu0_endpoint (GET_PTR gpu0_alloc 128) 8 =
     Inr (RMW_RET_OK, ex_three_published)
   \<and> entries ex_three_published (get_entry (hdr ex_three_published) 2 0) =
       \<lparr>alloc_shmem_id = shmem_id gpu0_alloc, offset = 128, len_e = 8\<rparr>
   \<and> hazcat_take ex_env ex_three_published ex_gpu0_endpoint =
       Inr (\<lparr>ref_alloc = Some gpu1_alloc, ref_msg = GET_PTR gpu1_alloc 640\<rparr>,
            ex_three_taken, ex_gpu0_endpoint\<lparr>next_index := 1\<rparr>)
   \<and> calls ex_three_taken = [SHARE gpu1_alloc 640, DEALLOCATE gpu0_alloc 128]"
  by (simp add: ex_defs take_defs publish_only_defs)

section \<open>The slot and the entry of a publish\<close>

text \<open>
  C3. A publish that has acquired the file lock and returns, on a queue whose length fits
  an \<^verbatim>\<open>int\<close>, has published into the slot \<open>i\<close> that \<open>index\<close> held before the call, the value
  the fetch-and-increment returns, and \<open>i\<close> is a row of the queue. Afterwards \<open>index\<close> is
  \<open>(i + 1) mod len\<close>, the cell \<open>entry[array_num][i]\<close> holds the publisher's
  \<open>(alloc_shmem_id, offset, len)\<close>, the row's availability is exactly \<open>1 << array_num\<close>
  and its \<open>interest_count\<close> is the queue's \<open>sub_count\<close>, which the publish leaves as it
  was.
\<close>

theorem publish_commits_entry:
  assumes "hazcat_publish env st pub msg l = Inr (r, st')"
    and "fcntl_setlkw_ok env"
    and "unat (len (hdr st)) < 2 ^ 31"
  shows "0 \<le> sint (index (hdr st)) \<and> nat (sint (index (hdr st))) < unat (len (hdr st))
       \<and> sint (index (hdr st')) = (sint (index (hdr st)) + 1) mod int (unat (len (hdr st)))
       \<and> entries st' (get_entry (hdr st') (unat (array_num pub)) (row (index (hdr st)))) =
           \<lparr>alloc_shmem_id = shmem_id (alloc pub),
            offset = ucast (PTR_TO_OFFSET (alloc pub) msg),
            len_e = l\<rparr>
       \<and> availability (ref_bits st' (row (index (hdr st)))) = push_bit (unat (array_num pub)) 1
       \<and> interest_count (ref_bits st' (row (index (hdr st)))) = ucast (sub_count (hdr st'))
       \<and> sub_count (hdr st') = sub_count (hdr st) \<and> len (hdr st') = len (hdr st)"
  using assms(1)
proof (cases rule: hazcat_publish_cases)
  case no_lock
  with assms(2) show ?thesis by simp
next
  case (published h cs)
  from published(4) have i: "0 \<le> sint (index (hdr st))"
    "nat (sint (index (hdr st))) < unat (len (hdr st))"
    by (simp_all add: row_ok_def)
  from published(8) have
    "index (hdr st') = ucast ((scast (index (hdr st) + 1) :: 64 word) mod len (hdr st))"
    by simp
  with next_slot_sint [OF i assms(3)] have
    "sint (index (hdr st')) = (sint (index (hdr st)) + 1) mod int (unat (len (hdr st)))"
    by simp
  with i published(8) show ?thesis
    by (simp add: get_entry_def)
qed

theorem publish_commits_entry_witness:
  "hazcat_publish ex_env ex_empty ex_cpu_endpoint (GET_PTR cpu_alloc 160) 8 =
     Inr (RMW_RET_OK, ex_cpu_published)
   \<and> fcntl_setlkw_ok ex_env
   \<and> unat (len (hdr ex_empty)) < 2 ^ 31
   \<and> index (hdr ex_empty) = 0 \<and> index (hdr ex_cpu_published) = 1
   \<and> entries ex_cpu_published 0 = \<lparr>alloc_shmem_id = 7, offset = 160, len_e = 8\<rparr>
   \<and> availability (ref_bits ex_cpu_published 0) = 1
   \<and> interest_count (ref_bits ex_cpu_published 0) = 1
   \<and> sub_count (hdr ex_cpu_published) = 1"
  using publish_commits_entry [OF ex_cpu_publish] ex_cpu_publish
  by (simp add: ex_defs)

section \<open>Overwriting a live row\<close>

text \<open>
  C4. A publish that has acquired the file lock and returns has, when the row of its slot
  \<open>i = index\<close> was live (\<open>interest_count > 0\<close>), called \<^verbatim>\<open>DEALLOCATE\<close> once for each of
  the 32 columns \<open>d\<close> whose bit is set in the row's availability mask, in order, with the
  offset of \<open>entry[d][i]\<close> as it was before the publish wrote its own entry, on the
  allocator the registry yields for that entry's \<open>alloc_shmem_id\<close> (every such lookup has
  found one); these are all the allocator calls of the publish. When the row was not live
  the publish has called no allocator.
\<close>

theorem publish_releases_live_row:
  assumes "hazcat_publish env st pub msg l = Inr (r, st')" and "fcntl_setlkw_ok env"
  shows "calls st' = calls st @
           (if 0 < interest_count (ref_bits st (row (index (hdr st))))
            then copies_released env (ht st) (hdr st) (entries st)
                   (availability (ref_bits st (row (index (hdr st)))))
                   (row (index (hdr st))) [0..<DOMAINS_PER_TOPIC]
            else [])
       \<and> (0 < interest_count (ref_bits st (row (index (hdr st)))) \<longrightarrow>
            (\<forall>d < DOMAINS_PER_TOPIC.
               has_copy (availability (ref_bits st (row (index (hdr st))))) d \<longrightarrow>
               resolve env (ht st)
                 (alloc_shmem_id (entries st (get_entry (hdr st) d (row (index (hdr st))))))
                 \<noteq> None))"
  using assms(1)
proof (cases rule: hazcat_publish_cases)
  case no_lock
  with assms(2) show ?thesis by simp
next
  case (published h cs)
  show ?thesis
  proof (cases "0 < interest_count (ref_bits st (row (index (hdr st))))")
    case True
    with published(6) have rel:
      "release_copies env (hdr st) (entries st)
         (availability (ref_bits st (row (index (hdr st))))) (row (index (hdr st)))
         [0..<DOMAINS_PER_TOPIC] (ht st) (calls st) = Inr (h, cs)"
      by simp
    from release_copies_calls [OF rel] release_copies_resolved [OF rel] True published(8)
    show ?thesis by simp
  next
    case False
    with published(6,8) show ?thesis by simp
  qed
qed

theorem publish_releases_live_row_witness:
  "hazcat_publish ex_env ex_full ex_cpu_endpoint (GET_PTR cpu_alloc 192) 8 =
     Inr (RMW_RET_OK, ex_full_published)
   \<and> fcntl_setlkw_ok ex_env
   \<and> 0 < interest_count (ref_bits ex_full (row (index (hdr ex_full))))
   \<and> calls ex_full = []
   \<and> calls ex_full_published = [DEALLOCATE cpu_alloc 160]
   \<and> copies_released ex_env (ht ex_full) (hdr ex_full) (entries ex_full)
        (availability (ref_bits ex_full (row (index (hdr ex_full)))))
        (row (index (hdr ex_full))) [0..<DOMAINS_PER_TOPIC] = [DEALLOCATE cpu_alloc 160]"
  using publish_releases_live_row [OF ex_full_publish] ex_full_publish
  by (simp add: ex_defs row_def copies_released_def dealloc_of_def resolve_def has_copy_def
      get_entry_def DOMAINS_PER_TOPIC_def upt_numeral)

section \<open>Who changes the interest count\<close>

text \<open>
  Over all six queue operations, whenever one returns: a registration leaves every row of
  the queue as it was or zero, and zero only when it has just created the segment or when
  its resize has cut the file at or before the row; an unregistration leaves every row as it
  was; a publish changes no row but that of its slot, whose \<open>interest_count\<close> it sets to the
  queue's \<open>sub_count\<close> (and nothing when it could not take the file lock); a take changes no
  row but its candidate slot, nothing when it returns no message, and when it returns a
  message it has decremented that row's \<open>interest_count\<close> by exactly one. When that brings
  the count to zero, the last allocator calls of the take are the \<^verbatim>\<open>DEALLOCATE\<close>s of the
  row's entries in every column of the queue whose availability bit is set, each on the
  allocator the registry yields for the entry's \<open>alloc_shmem_id\<close>, and every such lookup has
  found one.
\<close>

lemma interest_count_accounting:
  "((hazcat_register_publisher env st e = Inr (r, st', e')
      \<or> hazcat_register_subscription env st e = Inr (r, st', e')) \<longrightarrow>
      (\<forall>j < unat (len (hdr st)). row_kept_or_cut st st' j))
   \<and> ((hazcat_unregister_publisher env st e = Inr (r, st', e')
        \<or> hazcat_unregister_subscription env st e = Inr (r, st', e')) \<longrightarrow>
        ref_bits st' = ref_bits st)
   \<and> (hazcat_publish env st e msg l = Inr (r, st') \<longrightarrow>
        (\<forall>j. j \<noteq> row (index (hdr st)) \<longrightarrow> ref_bits st' j = ref_bits st j)
        \<and> (\<not> fcntl_setlkw_ok env \<longrightarrow> ref_bits st' = ref_bits st)
        \<and> (fcntl_setlkw_ok env \<longrightarrow>
             interest_count (ref_bits st' (row (index (hdr st)))) = ucast (sub_count (hdr st'))
             \<and> sub_count (hdr st') = sub_count (hdr st)))
   \<and> (hazcat_take env st e = Inr (ret, st', e') \<longrightarrow>
        (\<forall>j. j \<noteq> row (take_candidate (hdr st) e) \<longrightarrow> ref_bits st' j = ref_bits st j)
        \<and> (ref_alloc ret = None \<longrightarrow> ref_bits st' = ref_bits st)
        \<and> (ref_alloc ret \<noteq> None \<longrightarrow>
             interest_count (ref_bits st' (row (take_candidate (hdr st) e))) =
               interest_count (ref_bits st (row (take_candidate (hdr st) e))) - 1
             \<and> (interest_count (ref_bits st' (row (take_candidate (hdr st) e))) = 0 \<longrightarrow>
                  (\<exists>pre. calls st' = calls st @ pre @
                     copies_released env (ht st) (hdr st) (entries st')
                       (availability (ref_bits st' (row (take_candidate (hdr st) e))))
                       (row (take_candidate (hdr st) e)) [0..<unat (num_domains (hdr st))])
                  \<and> (\<forall>d < unat (num_domains (hdr st)).
                        has_copy (availability (ref_bits st' (row (take_candidate (hdr st) e)))) d
                        \<longrightarrow> resolve env (ht st)
                              (alloc_shmem_id (entries st'
                                 (get_entry (hdr st) d (row (take_candidate (hdr st) e)))))
                            \<noteq> None))))"
proof (intro conjI impI)
  assume "hazcat_register_publisher env st e = Inr (r, st', e')
      \<or> hazcat_register_subscription env st e = Inr (r, st', e')"
  then show "\<forall>j < unat (len (hdr st)). row_kept_or_cut st st' j"
    using register_publisher_ref_bits register_subscription_ref_bits by blast
next
  assume "hazcat_unregister_publisher env st e = Inr (r, st', e')
        \<or> hazcat_unregister_subscription env st e = Inr (r, st', e')"
  then show "ref_bits st' = ref_bits st"
    using unregister_publisher_ref_bits unregister_subscription_ref_bits by blast
next
  assume p: "hazcat_publish env st e msg l = Inr (r, st')"
  then show "\<forall>j. j \<noteq> row (index (hdr st)) \<longrightarrow> ref_bits st' j = ref_bits st j"
    by (cases rule: hazcat_publish_cases) simp_all
  {
    assume "\<not> fcntl_setlkw_ok env"
    with p show "ref_bits st' = ref_bits st"
      by (cases rule: hazcat_publish_cases) simp_all
  }
  {
    assume "fcntl_setlkw_ok env"
    with p show "interest_count (ref_bits st' (row (index (hdr st)))) = ucast (sub_count (hdr st'))"
      and "sub_count (hdr st') = sub_count (hdr st)"
      by (cases rule: hazcat_publish_cases; simp)+
  }
next
  let ?i = "take_candidate (hdr st) e"
  assume t: "hazcat_take env st e = Inr (ret, st', e')"
  from hazcat_take_rows [OF t] show "\<forall>j. j \<noteq> row ?i \<longrightarrow> ref_bits st' j = ref_bits st j"
    by simp
  {
    assume "ref_alloc ret = None"
    with t show "ref_bits st' = ref_bits st"
      by (cases rule: hazcat_take_cases) (auto dest: take_fetch_frame(5))
  }
  {
    assume m: "ref_alloc ret \<noteq> None"
    from t m obtain st2 st3 where
      f: "take_fetch env (st\<lparr>fl := F_RDLCK\<rparr>) e ?i = Inr (ret, st2)" and
      rl: "take_release env st2 ?i = Inr st3" and
      st': "st' = (if fcntl_setlk_ok env then st3\<lparr>fl := F_UNLCK\<rparr> else st3)"
      by (cases rule: hazcat_take_cases) (auto simp: null_ref_def)
    note ff = take_fetch_frame [OF f]
    note rf = take_release_frame [OF rl]
    from ff(3) rf(4) st' show
      "interest_count (ref_bits st' (row ?i)) = interest_count (ref_bits st (row ?i)) - 1"
      by (simp split: if_splits)
    {
      assume "interest_count (ref_bits st' (row ?i)) = 0"
      with st' have z: "interest_count (ref_bits st3 (row ?i)) = 0"
        by (simp split: if_splits)
      from take_fetch_calls [OF f] obtain pre where
        pre: "calls st2 = calls st @ pre" and res: "resolve env (ht st2) = resolve env (ht st)"
        by auto
      have cr: "copies_released env (ht st2) (hdr st2) (entries st3)
                  (availability (ref_bits st3 (row ?i))) (row ?i) [0..<unat (num_domains (hdr st2))]
                = copies_released env (ht st) (hdr st) (entries st')
                  (availability (ref_bits st' (row ?i))) (row ?i) [0..<unat (num_domains (hdr st))]"
        using copies_released_cong [OF res] ff(1) st' by (simp split: if_splits)
      from take_release_calls [OF rl z] pre cr st' have
        "calls st' = calls st @ pre @
           copies_released env (ht st) (hdr st) (entries st')
             (availability (ref_bits st' (row ?i))) (row ?i) [0..<unat (num_domains (hdr st))]"
        by (simp split: if_splits)
      then show "\<exists>pre. calls st' = calls st @ pre @
           copies_released env (ht st) (hdr st) (entries st')
             (availability (ref_bits st' (row ?i))) (row ?i) [0..<unat (num_domains (hdr st))]"
        by blast
      from take_release_resolved [OF rl z] res ff(1) st' show
        "\<forall>d < unat (num_domains (hdr st)).
            has_copy (availability (ref_bits st' (row ?i))) d \<longrightarrow>
            resolve env (ht st) (alloc_shmem_id (entries st' (get_entry (hdr st) d (row ?i)))) \<noteq> None"
        by (simp split: if_splits)
    }
  }
qed


lemma interest_count_accounting_witness:
  "hazcat_take ex_env ex_cpu_published ex_cpu_endpoint =
     Inr (\<lparr>ref_alloc = Some cpu_alloc, ref_msg = GET_PTR cpu_alloc 160\<rparr>,
          ex_cpu_taken, ex_cpu_endpoint\<lparr>next_index := 1\<rparr>)
   \<and> row (take_candidate (hdr ex_cpu_published) ex_cpu_endpoint) = 0
   \<and> interest_count (ref_bits ex_cpu_published 0) = 1
   \<and> interest_count (ref_bits ex_cpu_taken 0) = 0
   \<and> calls ex_cpu_taken =
       calls ex_cpu_published @ [SHARE cpu_alloc 160] @
       copies_released ex_env (ht ex_cpu_published) (hdr ex_cpu_published) (entries ex_cpu_taken)
         (availability (ref_bits ex_cpu_taken 0)) 0 [0..<unat (num_domains (hdr ex_cpu_published))]
   \<and> calls ex_cpu_taken = [SHARE cpu_alloc 160, DEALLOCATE cpu_alloc 160]
   \<and> hazcat_publish ex_env ex_empty ex_cpu_endpoint (GET_PTR cpu_alloc 160) 8 =
       Inr (RMW_RET_OK, ex_cpu_published)
   \<and> row (index (hdr ex_empty)) = 0
   \<and> interest_count (ref_bits ex_cpu_published 0) = ucast (sub_count (hdr ex_empty))
   \<and> hazcat_register_publisher ex_env ex_empty ex_gpu0_new =
       Inr (RMW_RET_OK, ex_two_columns, ex_gpu0_new\<lparr>array_num := 1, mq := Some ex_node\<rparr>)
   \<and> unat (len (hdr ex_empty)) = 4
   \<and> ref_bits ex_two_columns 0 = ref_bits ex_empty 0
   \<and> ref_bits ex_two_columns 3 = ref_bits ex_empty 3
   \<and> hazcat_unregister_publisher ex_env ex_empty ex_cpu_endpoint =
       Inr (RMW_RET_OK, ex_unregistered, ex_cpu_endpoint\<lparr>mq := None\<rparr>)
   \<and> ref_bits ex_unregistered = ref_bits ex_empty"
  using
    interest_count_accounting [where env = ex_env and st = ex_empty
      and e = ex_gpu0_new and st' = ex_two_columns and r = RMW_RET_OK
      and e' = "ex_gpu0_new\<lparr>array_num := 1, mq := Some ex_node\<rparr>"]
    interest_count_accounting [where env = ex_env and st = ex_empty
      and e = ex_cpu_endpoint and st' = ex_unregistered and r = RMW_RET_OK
      and e' = "ex_cpu_endpoint\<lparr>mq := None\<rparr>"]
    ex_register_publisher ex_unregister_publisher
    interest_count_accounting [where env = ex_env and st = ex_cpu_published
      and e = ex_cpu_endpoint and st' = ex_cpu_taken
      and e' = "ex_cpu_endpoint\<lparr>next_index := 1\<rparr>"
      and ret = "\<lparr>ref_alloc = Some cpu_alloc, ref_msg = GET_PTR cpu_alloc 160\<rparr>"]
    interest_count_accounting [where env = ex_env and st = ex_empty
      and e = ex_cpu_endpoint and st' = ex_cpu_published and r = RMW_RET_OK
      and msg = "GET_PTR cpu_alloc 160" and l = 8]
    ex_cpu_take ex_cpu_publish
  by (simp add: ex_defs row_def take_candidate_def copies_released_def dealloc_of_def
      resolve_def has_copy_def get_entry_def upt_numeral row_kept_or_cut_def)

text \<open>
  C5. The \<open>interest_count\<close> of a row is to change in a take, by one, and in a publish, to
  \<open>sub_count\<close>, and nowhere else. A registration that adds a column resizes the file to
  \<open>mq_size depth\<close> with the depth of the new endpoint (lines 213-217), whatever \<open>len\<close> is. On
  \<open>ex_full\<close>, a queue of depth 4 whose four rows each hold a message that one subscriber has
  still to read, registering a publisher of device 0 with depth 1 cuts the file from 288 to
  192 bytes, behind row 1: the rows 2 and 3 and every entry cell are lost and read as zero.
  Their \<open>interest_count\<close> has gone from 1 to 0 without a take, and no allocator has been asked
  to deallocate the messages.
\<close>

theorem register_resize_clears_rows:
  "hazcat_register_publisher ex_env ex_full ex_gpu0_shallow =
     Inr (RMW_RET_OK, ex_full_cut, ex_gpu0_shallow\<lparr>array_num := 1, mq := Some ex_node\<rparr>)
   \<and> len (hdr ex_full) = 4 \<and> len (hdr ex_full_cut) = 4
   \<and> st_size ex_full = 288 \<and> st_size ex_full_cut = mq_size (depth ex_gpu0_shallow)
   \<and> st_size ex_full_cut = 192
   \<and> interest_count (ref_bits ex_full 2) = 1 \<and> interest_count (ref_bits ex_full_cut 2) = 0
   \<and> interest_count (ref_bits ex_full 3) = 1 \<and> interest_count (ref_bits ex_full_cut 3) = 0
   \<and> entries ex_full (get_entry (hdr ex_full) 0 2) =
       \<lparr>alloc_shmem_id = 7, offset = 176, len_e = 8\<rparr>
   \<and> entries ex_full_cut (get_entry (hdr ex_full_cut) 0 2) = zero_entry
   \<and> calls ex_full_cut = calls ex_full"
  by (simp add: ex_defs register_defs get_entry_def fun_eq_iff)

section \<open>Registration of a new domain\<close>

text \<open>
  C6. A registration whose domain is not among the queue's columns, with room for one more,
  is to append the column and enlarge the segment by one entry column. The resize of lines
  213-221 sets the size to \<open>mq_size depth\<close>, which has room for one entry column whatever
  \<open>num_domains\<close> is. Registering a publisher of device 0 with depth 4 on \<open>ex_empty\<close>, a queue
  of depth 4 with the host column only, appends column 1 and leaves the file at its size.
\<close>

theorem register_new_domain_keeps_size:
  "hazcat_register_publisher ex_env ex_empty ex_gpu0_new =
     Inr (RMW_RET_OK, ex_two_columns, ex_gpu0_new\<lparr>array_num := 1, mq := Some ex_node\<rparr>)
   \<and> find_domain (domain (alloc ex_gpu0_new)) (hdr ex_empty) = DOMAINS_PER_TOPIC
   \<and> num_domains (hdr ex_empty) = 1 \<and> num_domains (hdr ex_two_columns) = 2
   \<and> domains (hdr ex_two_columns) 1 = domain (alloc ex_gpu0_new)
   \<and> st_size ex_two_columns = st_size ex_empty
   \<and> st_size ex_empty = sizeof_message_queue_t + 4 * sizeof_ref_bits_t + 4 * sizeof_entry_t"
  by (simp add: ex_defs register_defs)

section \<open>Registration on a fresh segment\<close>

text \<open>
  C7. A registration by a process that has not opened the topic, on a segment whose file
  is new or empty, with every system call succeeding, creates the queue:
  \<^verbatim>\<open>hazcat_register_pub_or_sub\<close> returns \<^verbatim>\<open>RMW_RET_OK\<close>, the file has the size
  \<open>header + depth * ref_bits + depth * entry\<close>, and the header has \<open>index = 0\<close>,
  \<open>len = depth\<close>, \<open>domains[0] = CPU\<close>, \<open>num_domains = 1\<close> for an endpoint of the CPU domain and
  \<open>num_domains = 2\<close> with \<open>domains[1]\<close> the endpoint's domain otherwise, and both counts
  zero (the caller, \<^verbatim>\<open>hazcat_register_publisher\<close> or \<^verbatim>\<open>hazcat_register_subscription\<close>,
  increments one of them afterwards).
\<close>

theorem register_creates_queue:
  assumes "mq_list st = None" and "\<not> linked st \<or> st_size st = 0"
    and "shm_open_ret env \<noteq> - 1" and "fcntl_setlkw_ok env" and "ftruncate_ok env"
    and "mmap_ok env"
  shows "\<exists>st' data'.
           hazcat_register_pub_or_sub env st data = Inr (RMW_RET_OK, st', data')
         \<and> st_size st' = sizeof_message_queue_t + scast (depth data) * sizeof_ref_bits_t
                          + scast (depth data) * sizeof_entry_t
         \<and> index (hdr st') = 0
         \<and> len (hdr st') = scast (depth data)
         \<and> domains (hdr st') 0 = CPU
         \<and> (if domain (alloc data) = CPU
             then num_domains (hdr st') = 1 \<and> array_num data' = 0
             else num_domains (hdr st') = 2 \<and> domains (hdr st') 1 = domain (alloc data)
                  \<and> array_num data' = 1)
         \<and> pub_count (hdr st') = 0 \<and> sub_count (hdr st') = 0"
proof -
  let ?st0 = "st\<lparr>ht := hashtable_insert (ht st) (shmem_id (alloc data)) (alloc data)\<rparr>"
  have o: "open_queue env ?st0 data =
           (RMW_RET_OK,
            ?st0\<lparr>hdr := fresh_queue data, ref_bits := (\<lambda>_. zero_ref_bits),
               entries := (\<lambda>_. zero_entry), st_size := mq_size (depth data),
               linked := True, mapped := True,
               mq_list := Some \<lparr>fd = shm_open_ret env\<rparr>, fl := F_WRLCK\<rparr>)"
    using assms by (intro open_queue_fresh) simp_all
  have q: "index (fresh_queue data) = 0" "len (fresh_queue data) = scast (depth data)"
    "domains (fresh_queue data) 0 = CPU"
    "num_domains (fresh_queue data) = (if domain (alloc data) = CPU then 1 else 2)"
    "domain (alloc data) \<noteq> CPU \<Longrightarrow> domains (fresh_queue data) (Suc 0) = domain (alloc data)"
    "pub_count (fresh_queue data) = 0" "sub_count (fresh_queue data) = 0"
    by (simp_all add: fresh_queue_def Let_def)
  show ?thesis
  proof (cases "domain (alloc data) = CPU")
    case True
    with find_domain_fresh [of data] have "find_domain CPU (fresh_queue data) = 0"
      by simp
    with True show ?thesis
      by (simp add: hazcat_register_pub_or_sub_def o q Let_def DOMAINS_PER_TOPIC_def mq_size_def)
  next
    case False
    with find_domain_fresh [of data] have
      "find_domain (domain (alloc data)) (fresh_queue data) = Suc 0"
      by simp
    with False show ?thesis
      by (simp add: hazcat_register_pub_or_sub_def o q Let_def DOMAINS_PER_TOPIC_def mq_size_def)
  qed
qed

theorem register_creates_queue_witness:
  "mq_list ex_fresh = None \<and> st_size ex_fresh = 0 \<and> domain (alloc ex_gpu0_new) \<noteq> CPU
   \<and> hazcat_register_pub_or_sub ex_env ex_fresh ex_gpu0_new =
       Inr (RMW_RET_OK,
            ex_fresh\<lparr>hdr := \<lparr>index = 0, len = 4, num_domains = 2,
                             domains = (\<lambda>_. 0)(0 := CPU, 1 := 1), pub_count = 0,
                             sub_count = 0\<rparr>,
                     st_size := 288, linked := True, mapped := True,
                     mq_list := Some ex_node, fl := F_WRLCK,
                     ht := [9 \<mapsto> gpu0_alloc]\<rparr>,
            ex_gpu0_new\<lparr>array_num := 1, mq := Some ex_node\<rparr>)"
  using register_creates_queue [of ex_fresh ex_env ex_gpu0_new]
  by (simp add: ex_defs register_defs)

section \<open>Returns that keep the file lock\<close>

text \<open>
  C8. A take that ends without a message after it has acquired the file lock is to release
  the lock before it returns. The return of lines 381-386 comes before the only
  \<^verbatim>\<open>F_UNLCK\<close> of the function (line 466): on the empty queue \<open>ex_empty\<close> the candidate
  slot equals \<open>index\<close>, the take returns no message, and the read lock is still held.
\<close>

theorem take_no_message_keeps_lock:
  "fl ex_empty = F_UNLCK
   \<and> take_candidate (hdr ex_empty) ex_cpu_endpoint = index (hdr ex_empty)
   \<and> hazcat_take ex_env ex_empty ex_cpu_endpoint =
       Inr (null_ref, ex_empty\<lparr>fl := F_RDLCK\<rparr>, ex_cpu_endpoint)"
  by (simp add: ex_defs take_defs)

section \<open>Unregistration of an endpoint without a queue\<close>

text \<open>
  C9. \<^verbatim>\<open>hazcat_unregister_publisher\<close> and \<^verbatim>\<open>hazcat_unregister_subscription\<close>, called on an
  endpoint whose queue pointer is \<^verbatim>\<open>NULL\<close>, return the invalid-argument code, and the
  endpoint's allocator has been removed from the registry before that check: the state
  returned differs from the state given in the registry, and only there.
\<close>

theorem unregister_without_queue_removes_allocator:
  assumes "mq e = None"
  shows "hazcat_unregister_publisher env st e =
           Inr (RMW_RET_INVALID_ARGUMENT,
                st\<lparr>ht := hashtable_remove (ht st) (shmem_id (alloc e))\<rparr>, e)
       \<and> hazcat_unregister_subscription env st e =
           Inr (RMW_RET_INVALID_ARGUMENT,
                st\<lparr>ht := hashtable_remove (ht st) (shmem_id (alloc e))\<rparr>, e)
       \<and> hashtable_remove (ht st) (shmem_id (alloc e)) (shmem_id (alloc e)) = None"
  using assms
  by (simp add: hazcat_unregister_publisher_def hazcat_unregister_subscription_def
      hashtable_remove_def)

theorem unregister_without_queue_removes_allocator_witness:
  "mq (ex_cpu_endpoint\<lparr>mq := None\<rparr>) = None
   \<and> ht ex_empty 7 = Some cpu_alloc
   \<and> hazcat_unregister_publisher ex_env ex_empty (ex_cpu_endpoint\<lparr>mq := None\<rparr>) =
       Inr (RMW_RET_INVALID_ARGUMENT, ex_empty\<lparr>ht := Map.empty\<rparr>,
            ex_cpu_endpoint\<lparr>mq := None\<rparr>)
   \<and> hazcat_unregister_subscription ex_env ex_empty (ex_cpu_endpoint\<lparr>mq := None\<rparr>) =
       Inr (RMW_RET_INVALID_ARGUMENT, ex_empty\<lparr>ht := Map.empty\<rparr>,
            ex_cpu_endpoint\<lparr>mq := None\<rparr>)"
  using unregister_without_queue_removes_allocator
    [of "ex_cpu_endpoint\<lparr>mq := None\<rparr>" ex_env ex_empty]
  by (simp add: ex_defs hashtable_remove_def)

section \<open>The frame of a take\<close>

text \<open>
  C10. A take that returns, with a message or without one, leaves the header fields
  \<open>index\<close>, \<open>len\<close>, \<open>num_domains\<close>, \<open>domains\<close>, \<open>pub_count\<close> and \<open>sub_count\<close> as they
  were. Of the rows only the selected one, the candidate slot, may change, of the entry
  cells only the cell of that row in the subscriber's column, and of the subscriber's data
  only \<open>next_index\<close>. Of the other parts of the state the take changes the file lock
  held, the registry (by attaching an allocator) and the record of allocator calls, nothing
  else; without a message the rows, the cells and the subscriber are unchanged.
\<close>

theorem take_frame:
  assumes "hazcat_take env st sub = Inr (ret, st', sub')"
  shows "index (hdr st') = index (hdr st) \<and> len (hdr st') = len (hdr st)
       \<and> num_domains (hdr st') = num_domains (hdr st) \<and> domains (hdr st') = domains (hdr st)
       \<and> pub_count (hdr st') = pub_count (hdr st) \<and> sub_count (hdr st') = sub_count (hdr st)
       \<and> (\<forall>r. r \<noteq> row (take_candidate (hdr st) sub) \<longrightarrow> ref_bits st' r = ref_bits st r)
       \<and> (\<forall>c. c \<noteq> get_entry (hdr st) (unat (array_num sub)) (row (take_candidate (hdr st) sub))
              \<longrightarrow> entries st' c = entries st c)
       \<and> sub'\<lparr>next_index := next_index sub\<rparr> = sub
       \<and> st'\<lparr>ref_bits := ref_bits st, entries := entries st, fl := fl st, ht := ht st,
              calls := calls st\<rparr> = st
       \<and> (ref_alloc ret = None \<longrightarrow>
            ref_bits st' = ref_bits st \<and> entries st' = entries st \<and> sub' = sub)"
  using assms
proof (cases rule: hazcat_take_cases)
  case no_lock
  then show ?thesis by (simp add: null_ref_def)
next
  case no_message
  then show ?thesis by (simp add: null_ref_def)
next
  case (message st2 st3)
  note f = take_fetch_frame [OF message(7)]
  note r = take_release_frame [OF message(8)]
  have rest2: "st2\<lparr>ref_bits := ref_bits st, entries := entries st, fl := fl st, ht := ht st,
                  calls := calls st\<rparr> = st"
    using message(7)
    by (auto simp: take_fetch_def take_preferred_def take_copy_def Let_def
        split: if_splits option.splits prod.splits)
  have rest3: "st3\<lparr>ref_bits := ref_bits st2, entries := entries st2, fl := fl st2, ht := ht st2,
                  calls := calls st2\<rparr> = st2"
    using message(8)
    by (auto simp: take_release_def Let_def split: if_splits sum.splits prod.splits)
  have rest: "st'\<lparr>ref_bits := ref_bits st, entries := entries st, fl := fl st, ht := ht st,
                 calls := calls st\<rparr> = st"
    using rest2 rest3 message(9)
    by (cases st, cases st2, cases st3) (auto split: if_splits)
  have hdr: "hdr st' = hdr st"
    using f(1) r(1) message(9) by (simp split: if_splits)
  have rows: "\<forall>r. r \<noteq> row (take_candidate (hdr st) sub) \<longrightarrow> ref_bits st' r = ref_bits st r"
    using f(2) r(3) message(9) by (simp split: if_splits)
  have cells: "\<forall>c. c \<noteq> get_entry (hdr st) (unat (array_num sub)) (row (take_candidate (hdr st) sub))
              \<longrightarrow> entries st' c = entries st c"
    using f(4) r(2) message(9) by (simp split: if_splits)
  from hdr rows cells rest f(5) message(10) show ?thesis
    by auto
qed


theorem take_frame_witness:
  "hazcat_take ex_env ex_cpu_published ex_cpu_endpoint =
     Inr (\<lparr>ref_alloc = Some cpu_alloc, ref_msg = GET_PTR cpu_alloc 160\<rparr>,
          ex_cpu_taken, ex_cpu_endpoint\<lparr>next_index := 1\<rparr>)
   \<and> hdr ex_cpu_taken = hdr ex_cpu_published
   \<and> row (take_candidate (hdr ex_cpu_published) ex_cpu_endpoint) = 0
   \<and> ref_bits ex_cpu_taken 1 = ref_bits ex_cpu_published 1
   \<and> ref_bits ex_cpu_taken 0 \<noteq> ref_bits ex_cpu_published 0
   \<and> entries ex_cpu_taken = entries ex_cpu_published"
  using take_frame [OF ex_cpu_take]
  by (simp add: ex_defs take_defs)

end
